theory Spec2Isabelle
  imports Complex_Main "HOL-Library.Char_ord" "HOL-Library.List_Lexorder"
begin

section \<open>The product feed route (src/app/api/feed/route.js)\<close>

text \<open>
  The route reads a paginated product catalogue, builds one CSV row per variant
  of every active product and returns the document. This theory embeds the
  functions of the file one by one: \<open>escapeCsv\<close>, \<open>stripHtml\<close>,
  \<open>getAvailability\<close>, \<open>getVariantOptionByName\<close>, \<open>buildItemRow\<close>,
  \<open>fetchAllProducts\<close> and \<open>GET\<close>.

  JavaScript strings are modelled as \<^typ>\<open>string\<close>, read as the UTF-8 bytes of the
  text. Every character the route inspects (quote, comma, newline, the angle
  brackets) is ASCII, and an ASCII byte never occurs inside a multi-byte
  sequence, so searching and replacing them on bytes is the same as on code units.
\<close>

subsection \<open>Values\<close>

text \<open>
  A JavaScript number is NaN, an infinity or a finite value. A finite double is a
  rational, so finite numbers are modelled as \<^typ>\<open>rat\<close> (a superset of the
  doubles); \<open>+0\<close> and \<open>-0\<close> are one value, since no operation of the route
  tells them apart.
\<close>

datatype jsnum = NaN | NegInf | Fin rat | PosInf

text \<open>The primitive values a JSON document can put into a field, and \<open>undefined\<close>
  for a key that is absent.\<close>

datatype jsval = JUndefined | JNull | JBool bool | JNum jsnum | JStr string

text \<open>An array or object valued property that may be absent or null.\<close>

datatype 'a jsopt = Missing | IsNull | Has 'a

text \<open>A thrown exception. The route's own code can only raise a \<open>TypeError\<close>
  (a method call on a value that does not have the method); \<open>SourceError\<close> is a
  rejection of the catalogue client, carried with its message.\<close>

datatype error = TypeError string | SourceError string

subsection \<open>The engine's built-ins\<close>

text \<open>
  Four built-ins of the JavaScript engine depend on tables and on binary64
  rounding that lie outside the file: Unicode lower-casing, \<open>parseFloat\<close>, the
  string-to-number conversion, and the printing of a number that is not a small
  integer. They are parameters of the model, collected in one record; every
  theorem below holds for any choice of them, the real engine's included.
\<close>

record js_engine =
  toLowerCase :: "string \<Rightarrow> string"
  parseFloat :: "string \<Rightarrow> jsnum"
  stringToNumber :: "string \<Rightarrow> jsnum"
  numberToString :: "rat \<Rightarrow> string"

text \<open>\<open>ToBoolean\<close>: the falsy values are \<open>undefined\<close>, \<open>null\<close>, \<open>false\<close>,
  \<open>0\<close>, \<open>NaN\<close> and the empty string.\<close>

fun truthy :: "jsval \<Rightarrow> bool" where
  "truthy JUndefined = False"
| "truthy JNull = False"
| "truthy (JBool b) = b"
| "truthy (JNum n) = (n \<noteq> NaN \<and> n \<noteq> Fin 0)"
| "truthy (JStr s) = (s \<noteq> [])"

text \<open>The decimal digits of a natural number.\<close>

fun digits :: "nat \<Rightarrow> string" where
  "digits n = (if n < 10 then [''0123456789'' ! n]
               else digits (n div 10) @ [''0123456789'' ! (n mod 10)])"

declare digits.simps [simp del]

definition int_to_string :: "int \<Rightarrow> string" where
  "int_to_string i = (if i < 0 then CHR ''-'' # digits (nat (- i)) else digits (nat i))"

text \<open>\<open>Number::toString\<close>: an integer below \<open>10^21\<close> in magnitude prints as its
  decimal digits; any other finite value is printed by the engine.\<close>

fun num_to_string :: "js_engine \<Rightarrow> jsnum \<Rightarrow> string" where
  "num_to_string rt NaN = ''NaN''"
| "num_to_string rt PosInf = ''Infinity''"
| "num_to_string rt NegInf = ''-Infinity''"
| "num_to_string rt (Fin q) =
     (if of_int \<lfloor>q\<rfloor> = q \<and> \<bar>q\<bar> < 10 ^ 21 then int_to_string \<lfloor>q\<rfloor>
      else numberToString rt q)"

text \<open>\<open>ToString\<close>, which is what \<open>String(x)\<close> and a template literal apply.\<close>

fun ToString :: "js_engine \<Rightarrow> jsval \<Rightarrow> string" where
  "ToString rt JUndefined = ''undefined''"
| "ToString rt JNull = ''null''"
| "ToString rt (JBool b) = (if b then ''true'' else ''false'')"
| "ToString rt (JNum n) = num_to_string rt n"
| "ToString rt (JStr s) = s"

text \<open>\<open>ToNumber\<close>, applied by the comparison \<open>>\<close> to an operand that is not a number.\<close>

fun ToNumber :: "js_engine \<Rightarrow> jsval \<Rightarrow> jsnum" where
  "ToNumber rt JUndefined = NaN"
| "ToNumber rt JNull = Fin 0"
| "ToNumber rt (JBool b) = (if b then Fin 1 else Fin 0)"
| "ToNumber rt (JNum n) = n"
| "ToNumber rt (JStr s) = stringToNumber rt s"

text \<open>\<open>a > b\<close> on numbers: false as soon as one side is NaN.\<close>

fun num_gt :: "jsnum \<Rightarrow> jsnum \<Rightarrow> bool" where
  "num_gt NaN b = False"
| "num_gt a NaN = False"
| "num_gt PosInf b = (b \<noteq> PosInf)"
| "num_gt NegInf b = False"
| "num_gt (Fin x) NegInf = True"
| "num_gt (Fin x) PosInf = False"
| "num_gt (Fin x) (Fin y) = (y < x)"

text \<open>\<open>v > 0\<close> for a value \<open>v\<close>: the right operand is a number, so the left
  one is converted with \<open>ToNumber\<close>.\<close>

definition js_gt_zero :: "js_engine \<Rightarrow> jsval \<Rightarrow> bool" where
  "js_gt_zero rt v = num_gt (ToNumber rt v) (Fin 0)"

text \<open>\<open>a || b\<close> on values.\<close>

definition js_or :: "jsval \<Rightarrow> jsval \<Rightarrow> jsval" where
  "js_or a b = (if truthy a then a else b)"

text \<open>\<open>Number.prototype.toFixed(2)\<close>: a value that is not finite prints as
  \<open>ToString\<close> does; otherwise the sign, then the integer \<open>n\<close> nearest to
  \<open>100 * x\<close> (the larger one on a tie) with a point before its last two digits.
  From \<open>10^21\<close> on the engine prints the number.\<close>

fun toFixed2 :: "js_engine \<Rightarrow> jsnum \<Rightarrow> string" where
  "toFixed2 rt (Fin x) =
     (let s = (if x < 0 then ''-'' else '''');
          a = \<bar>x\<bar>
      in if a \<ge> 10 ^ 21 then s @ num_to_string rt (Fin a)
         else let m = digits (nat \<lfloor>a * 100 + 1 / 2\<rfloor>);
                  m' = (if length m \<le> 2 then replicate (3 - length m) (CHR ''0'') @ m else m);
                  k = length m'
              in s @ take (k - 2) m' @ ''.'' @ drop (k - 2) m')"
| "toFixed2 rt n = num_to_string rt n"

text \<open>\<open>Array.prototype.join\<close> on an array of strings.\<close>

fun join :: "string \<Rightarrow> string list \<Rightarrow> string" where
  "join sep [] = []"
| "join sep [x] = x"
| "join sep (x # y # ys) = x @ sep @ join sep (y # ys)"

text \<open>On an array of values, \<open>join\<close> prints \<open>undefined\<close> and \<open>null\<close> as the
  empty string and every other element with \<open>ToString\<close>.\<close>

definition join_elem :: "js_engine \<Rightarrow> jsval \<Rightarrow> string" where
  "join_elem rt v = (if v = JUndefined \<or> v = JNull then [] else ToString rt v)"

subsection \<open>Constants of the file\<close>

definition SHOP_DOMAIN :: string where
  "SHOP_DOMAIN = ''https://lunaglow.de''"

definition CURRENCY :: string where
  "CURRENCY = ''EUR''"

definition CSV_HEADERS :: "string list" where
  "CSV_HEADERS =
     [''id'', ''title'', ''description'', ''link'', ''image_link'',
      ''additional_image_link'', ''availability'', ''price'', ''sale_price'',
      ''brand'', ''condition'', ''gtin'', ''identifier_exists'', ''product_type'',
      ''item_group_id'', ''color'', ''size'', ''material'', ''shipping_weight'']"

subsection \<open>escapeCsv\<close>

text \<open>\<open>value.replace(/"/g, '""')\<close>: every double quote is written twice.\<close>

fun double_quotes :: "string \<Rightarrow> string" where
  "double_quotes [] = []"
| "double_quotes (c # cs) =
     (if c = CHR 0x22 then CHR 0x22 # CHR 0x22 # double_quotes cs
      else c # double_quotes cs)"

definition escapeCsv :: "js_engine \<Rightarrow> jsval \<Rightarrow> string" where
  "escapeCsv rt str =
     (if \<not> truthy str then []
      else let v = ToString rt str
           in if CHR 0x22 \<in> set v \<or> CHR '','' \<in> set v \<or> CHR 0x0A \<in> set v
              then [CHR 0x22] @ double_quotes v @ [CHR 0x22]
              else v)"

subsection \<open>The catalogue's records\<close>

text \<open>
  The objects of the catalogue's JSON. A scalar property is a \<^typ>\<open>jsval\<close>, so
  that it can be absent, null or of an unexpected type; \<open>images\<close> and
  \<open>options\<close> are arrays of objects that may be absent or null; \<open>variants\<close>
  is an array. (\<open>p_id\<close>, \<open>p_title\<close>, \<open>v_id\<close>, \<open>v_title\<close> and \<open>o_name\<close> are
  the properties \<open>id\<close>, \<open>title\<close> and \<open>name\<close> of the three objects.)
\<close>

record image =
  src :: jsval

record product_option =
  o_name :: jsval
  position :: jsval

record variant =
  v_id :: jsval
  sku :: jsval
  v_title :: jsval
  price :: jsval
  compare_at_price :: jsval
  inventory_management :: jsval
  inventory_quantity :: jsval
  barcode :: jsval
  weight :: jsval
  weight_unit :: jsval
  option1 :: jsval
  option2 :: jsval
  option3 :: jsval

record product =
  p_id :: jsval
  p_title :: jsval
  handle :: jsval
  body_html :: jsval
  vendor :: jsval
  product_type :: jsval
  status :: jsval
  images :: "image list jsopt"
  options :: "product_option list jsopt"
  variants :: "variant list"

subsection \<open>stripHtml\<close>

text \<open>
  The class \<open>\s\<close> of a regular expression and \<open>trim\<close> use the same set of
  white space code points: U+0009 to U+000D, U+0020, U+00A0, U+1680, U+2000 to
  U+200A, U+2028, U+2029, U+202F, U+205F, U+3000 and U+FEFF. \<open>ws_len s\<close> is
  the number of bytes of the white space code point at the head of \<open>s\<close>, and 0
  when there is none.
\<close>

definition ws_len :: "string \<Rightarrow> nat" where
  "ws_len s =
     (case s of
        [] \<Rightarrow> 0
      | c # r \<Rightarrow>
          let a = (of_char c :: nat) in
          if a \<in> {0x09, 0x0A, 0x0B, 0x0C, 0x0D, 0x20} then 1
          else if a = 0xC2 \<and> take 1 r = [CHR 0xA0] then 2
          else if a = 0xE1 \<and> take 2 r = [CHR 0x9A, CHR 0x80] then 3
          else if a = 0xE2 then
            (case r of
               b1 # b2 # _ \<Rightarrow>
                 let y = (of_char b1 :: nat); z = (of_char b2 :: nat) in
                 if (y = 0x80 \<and> (0x80 \<le> z \<and> z \<le> 0x8A \<or> z = 0xA8 \<or> z = 0xA9 \<or> z = 0xAF))
                    \<or> (y = 0x81 \<and> z = 0x9F)
                 then 3 else 0
             | _ \<Rightarrow> 0)
          else if a = 0xE3 \<and> take 2 r = [CHR 0x80, CHR 0x80] then 3
          else if a = 0xEF \<and> take 2 r = [CHR 0xBB, CHR 0xBF] then 3
          else 0)"

lemma ws_len_Nil [simp]: "ws_len [] = 0"
  by (simp add: ws_len_def)

text \<open>The string after its leading white space.\<close>

function skip_ws :: "string \<Rightarrow> string" where
  "skip_ws s = (if ws_len s = 0 then s else skip_ws (drop (ws_len s) s))"
  by pat_completeness auto
termination
proof (relation "measure length")
  show "wf (measure length)" by simp
next
  fix s :: string
  assume "ws_len s \<noteq> 0"
  then have "s \<noteq> []" by (cases s) auto
  with \<open>ws_len s \<noteq> 0\<close> show "(drop (ws_len s) s, s) \<in> measure length" by simp
qed

declare skip_ws.simps [simp del]

lemma length_skip_ws: "length (skip_ws s) \<le> length s"
proof (induction s rule: skip_ws.induct)
  case (1 s)
  show ?case
  proof (cases "ws_len s = 0")
    case True
    then show ?thesis by (simp add: skip_ws.simps)
  next
    case False
    with "1" have "length (skip_ws (drop (ws_len s) s)) \<le> length (drop (ws_len s) s)"
      by simp
    with False show ?thesis by (subst skip_ws.simps) simp
  qed
qed

text \<open>\<open>replace(/<[^>]*>/g, "")\<close>: a \<open><\<close> that has a \<open>>\<close> somewhere after it
  is deleted together with everything up to the first such \<open>>\<close>; a \<open><\<close> with
  no \<open>>\<close> after it stays.\<close>

function strip_tags :: "string \<Rightarrow> string" where
  "strip_tags [] = []"
| "strip_tags (c # cs) =
     (if c = CHR ''<'' \<and> CHR ''>'' \<in> set cs
      then strip_tags (drop 1 (dropWhile (\<lambda>x. x \<noteq> CHR ''>'') cs))
      else c # strip_tags cs)"
  by pat_completeness auto
termination
proof (relation "measure length")
  show "wf (measure length)" by simp
next
  fix c :: char and cs :: string
  have "length (dropWhile (\<lambda>x. x \<noteq> CHR ''>'') cs) \<le> length cs"
    by (rule length_dropWhile_le)
  then show "(drop 1 (dropWhile (\<lambda>x. x \<noteq> CHR ''>'') cs), c # cs) \<in> measure length"
    by simp
next
  fix c :: char and cs :: string
  show "(cs, c # cs) \<in> measure length" by simp
qed

text \<open>\<open>replace(/\s+/g, " ")\<close>: every maximal run of white space becomes one
  space.\<close>

function collapse_ws :: "string \<Rightarrow> string" where
  "collapse_ws [] = []"
| "collapse_ws (c # cs) =
     (if ws_len (c # cs) = 0 then c # collapse_ws cs
      else CHR '' '' # collapse_ws (skip_ws (drop (ws_len (c # cs)) (c # cs))))"
  by pat_completeness auto
termination
proof (relation "measure length")
  show "wf (measure length)" by simp
next
  fix c :: char and cs :: string
  show "(cs, c # cs) \<in> measure length" by simp
next
  fix c :: char and cs :: string
  assume "ws_len (c # cs) \<noteq> 0"
  then have "length (drop (ws_len (c # cs)) (c # cs)) < length (c # cs)" by simp
  with length_skip_ws [of "drop (ws_len (c # cs)) (c # cs)"]
  show "(skip_ws (drop (ws_len (c # cs)) (c # cs)), c # cs) \<in> measure length"
    by simp
qed

text \<open>\<open>trim\<close>: the white space at both ends is removed.\<close>

fun trim_end :: "string \<Rightarrow> string" where
  "trim_end [] = []"
| "trim_end (c # cs) = (if skip_ws (c # cs) = [] then [] else c # trim_end cs)"

definition trim :: "string \<Rightarrow> string" where
  "trim s = trim_end (skip_ws s)"

text \<open>\<open>stripHtml\<close> returns the empty string on a falsy argument; on any other
  value it calls \<open>replace\<close>, which only a string has.\<close>

fun stripHtml :: "jsval \<Rightarrow> error + string" where
  "stripHtml (JStr s) = (if s = [] then Inr [] else Inr (trim (collapse_ws (strip_tags s))))"
| "stripHtml html =
     (if \<not> truthy html then Inr []
      else Inl (TypeError ''html.replace is not a function''))"

subsection \<open>getAvailability\<close>

definition getAvailability :: "js_engine \<Rightarrow> variant \<Rightarrow> jsval \<Rightarrow> string" where
  "getAvailability rt variant productStatus =
     (if productStatus \<noteq> JStr ''active'' then ''out_of_stock''
      else if inventory_management variant = JNull then ''in_stock''
      else if js_gt_zero rt (inventory_quantity variant) then ''in_stock''
      else ''out_of_stock'')"

subsection \<open>getVariantOptionByName\<close>

text \<open>
  \<open>product.options?.find(o => o.name.toLowerCase() === optionName.toLowerCase())\<close>:
  the options are visited in order, and the callback calls \<open>toLowerCase\<close> on
  each name before it compares, so a name that is not a string raises a
  \<open>TypeError\<close> when the search reaches it.
\<close>

fun find_option :: "js_engine \<Rightarrow> product_option list \<Rightarrow> string \<Rightarrow> error + product_option option" where
  "find_option rt [] optionName = Inr None"
| "find_option rt (opt # os) optionName =
     (case o_name opt of
        JStr s \<Rightarrow>
          if toLowerCase rt s = toLowerCase rt optionName then Inr (Some opt)
          else find_option rt os optionName
      | JUndefined \<Rightarrow> Inl (TypeError (''Cannot read properties of undefined (reading '' @ [CHR 0x27] @ ''toLowerCase'' @ [CHR 0x27] @ '')''))
      | JNull \<Rightarrow> Inl (TypeError (''Cannot read properties of null (reading '' @ [CHR 0x27] @ ''toLowerCase'' @ [CHR 0x27] @ '')''))
      | _ \<Rightarrow> Inl (TypeError ''o.name.toLowerCase is not a function''))"

text \<open>The property of a variant under a computed key. The key always starts with
  \<open>option\<close>, and the only properties of a variant with such a name are the
  three slots; any other key reads \<open>undefined\<close>.\<close>

definition variant_prop :: "variant \<Rightarrow> string \<Rightarrow> jsval" where
  "variant_prop variant key =
     (if key = ''option1'' then option1 variant
      else if key = ''option2'' then option2 variant
      else if key = ''option3'' then option3 variant
      else JUndefined)"

definition getVariantOptionByName :: "js_engine \<Rightarrow> product \<Rightarrow> variant \<Rightarrow> string \<Rightarrow> error + jsval" where
  "getVariantOptionByName rt product variant optionName =
     (case options product of
        Has os \<Rightarrow>
          (case find_option rt os optionName of
             Inl e \<Rightarrow> Inl e
           | Inr None \<Rightarrow> Inr JNull
           | Inr (Some opt) \<Rightarrow>
               Inr (js_or (variant_prop variant (''option'' @ ToString rt (position opt))) JNull))
      | _ \<Rightarrow> Inr JNull)"

subsection \<open>buildItemRow\<close>

text \<open>\<open>a && b\<close> on values.\<close>

definition js_and :: "jsval \<Rightarrow> jsval \<Rightarrow> jsval" where
  "js_and a b = (if truthy a then b else a)"

text \<open>\<open>a || b\<close> where both sides are calls that may throw: the right call is made
  only when the left one returned a falsy value.\<close>

definition or_else :: "error + jsval \<Rightarrow> error + jsval \<Rightarrow> error + jsval" where
  "or_else a b = (case a of Inl e \<Rightarrow> Inl e | Inr x \<Rightarrow> if truthy x then Inr x else b)"

text \<open>The global \<open>parseFloat\<close> converts its argument to a string first.\<close>

definition js_parseFloat :: "js_engine \<Rightarrow> jsval \<Rightarrow> jsnum" where
  "js_parseFloat rt v = parseFloat rt (ToString rt v)"

text \<open>The German option name of the source (G, r, o with diaeresis, sharp s, e),
  in UTF-8.\<close>

definition Groesse :: string where
  "Groesse = ''Gr'' @ [CHR 0xC3, CHR 0xB6, CHR 0xC3, CHR 0x9F] @ ''e''"

definition variantId :: "js_engine \<Rightarrow> product \<Rightarrow> variant \<Rightarrow> jsval" where
  "variantId rt product variant =
     js_or (sku variant)
       (JStr (''shopify_'' @ ToString rt (p_id product) @ ''_'' @ ToString rt (v_id variant)))"

definition title :: "js_engine \<Rightarrow> product \<Rightarrow> variant \<Rightarrow> jsval" where
  "title rt product variant =
     (if v_title variant \<noteq> JStr ''Default Title''
      then JStr (ToString rt (p_title product) @ '' - '' @ ToString rt (v_title variant))
      else p_title product)"

definition link :: "js_engine \<Rightarrow> product \<Rightarrow> string" where
  "link rt product = SHOP_DOMAIN @ ''/products/'' @ ToString rt (handle product)"

text \<open>\<open>product.images?.[0]?.src || ""\<close>.\<close>

definition imageLink :: "product \<Rightarrow> jsval" where
  "imageLink product =
     js_or (case images product of Has (img # _) \<Rightarrow> src img | _ \<Rightarrow> JUndefined) (JStr [])"

text \<open>\<open>(product.images?.slice(1) || []).map((img) => img.src).join(",")\<close>.\<close>

definition additionalImages :: "js_engine \<Rightarrow> product \<Rightarrow> string" where
  "additionalImages rt product =
     join '','' (map (\<lambda>img. join_elem rt (src img))
                    (case images product of Has imgs \<Rightarrow> drop 1 imgs | _ \<Rightarrow> []))"

definition color :: "js_engine \<Rightarrow> product \<Rightarrow> variant \<Rightarrow> error + jsval" where
  "color rt product variant =
     or_else (getVariantOptionByName rt product variant ''Color'')
       (or_else (getVariantOptionByName rt product variant ''Farbe'') (Inr (JStr [])))"

definition size_field :: "js_engine \<Rightarrow> product \<Rightarrow> variant \<Rightarrow> error + jsval" where
  "size_field rt product variant =
     or_else (getVariantOptionByName rt product variant ''Size'')
       (or_else (getVariantOptionByName rt product variant Groesse) (Inr (JStr [])))"

definition material :: "js_engine \<Rightarrow> product \<Rightarrow> variant \<Rightarrow> error + jsval" where
  "material rt product variant =
     or_else (getVariantOptionByName rt product variant ''Material'') (Inr (JStr []))"

definition hasSalePrice :: "js_engine \<Rightarrow> variant \<Rightarrow> jsval" where
  "hasSalePrice rt variant =
     js_and (compare_at_price variant)
       (JBool (num_gt (js_parseFloat rt (compare_at_price variant))
                      (js_parseFloat rt (price variant))))"

definition salePrice :: "js_engine \<Rightarrow> variant \<Rightarrow> string" where
  "salePrice rt variant =
     (if truthy (hasSalePrice rt variant)
      then toFixed2 rt (js_parseFloat rt (price variant)) @ '' '' @ CURRENCY
      else [])"

definition regularPrice :: "js_engine \<Rightarrow> variant \<Rightarrow> string" where
  "regularPrice rt variant =
     (if truthy (hasSalePrice rt variant)
      then toFixed2 rt (js_parseFloat rt (compare_at_price variant)) @ '' '' @ CURRENCY
      else toFixed2 rt (js_parseFloat rt (price variant)) @ '' '' @ CURRENCY)"

definition weight_field :: "js_engine \<Rightarrow> variant \<Rightarrow> string" where
  "weight_field rt variant =
     (if truthy (js_and (weight variant) (JBool (js_gt_zero rt (weight variant))))
      then ToString rt (weight variant) @ '' ''
           @ ToString rt (js_or (weight_unit variant) (JStr ''kg''))
      else [])"

text \<open>The array \<open>row\<close> of \<open>buildItemRow\<close>, before it is escaped and joined. The
  description is computed first and the three option fields in the order
  colour, size, material, as in the source, so the first exception wins.\<close>

definition buildItemRow_row :: "js_engine \<Rightarrow> product \<Rightarrow> variant \<Rightarrow> error + jsval list" where
  "buildItemRow_row rt product variant =
     (case stripHtml (body_html product) of
        Inl e \<Rightarrow> Inl e
      | Inr description \<Rightarrow>
     (case color rt product variant of
        Inl e \<Rightarrow> Inl e
      | Inr col \<Rightarrow>
     (case size_field rt product variant of
        Inl e \<Rightarrow> Inl e
      | Inr siz \<Rightarrow>
     (case material rt product variant of
        Inl e \<Rightarrow> Inl e
      | Inr mat \<Rightarrow>
          let barcode' = js_or (barcode variant) (JStr []);
              identifierExists = (if truthy barcode' then [] else ''false'')
          in Inr [variantId rt product variant,
                  title rt product variant,
                  JStr description,
                  JStr (link rt product),
                  imageLink product,
                  JStr (additionalImages rt product),
                  JStr (getAvailability rt variant (status product)),
                  JStr (regularPrice rt variant),
                  JStr (salePrice rt variant),
                  js_or (vendor product) (JStr []),
                  JStr ''new'',
                  barcode',
                  JStr identifierExists,
                  js_or (product_type product) (JStr []),
                  p_id product,
                  col,
                  siz,
                  mat,
                  JStr (weight_field rt variant)]))))"

definition buildItemRow :: "js_engine \<Rightarrow> product \<Rightarrow> variant \<Rightarrow> error + string" where
  "buildItemRow rt product variant =
     (case buildItemRow_row rt product variant of
        Inl e \<Rightarrow> Inl e
      | Inr row \<Rightarrow> Inr (join '','' (map (escapeCsv rt) row)))"

subsection \<open>fetchAllProducts\<close>

text \<open>
  The catalogue client is outside the file. A request is the \<open>params\<close> object
  handed to \<open>get\<close>: the path and a query, which is either the one the function
  builds for the first page (\<open>fields\<close> and \<open>limit\<close>) or the query object found
  in a response, copied as it is (type \<open>'q\<close>). A response carries the
  products of the page and a \<open>pageInfo\<close> that may be absent, whose \<open>nextPage\<close>
  may be absent or null.
\<close>

datatype 'q query = FirstQuery string string | NextQuery 'q

record 'q params =
  path :: string
  query :: "'q query"

record 'q page_info =
  nextPage :: "'q jsopt"

record 'q response =
  body_products :: "product list"
  pageInfo :: "'q page_info jsopt"

text \<open>\<open>await adminRESTClient.get(params)\<close> is an effect on the outside world: the
  client takes its state and the request and returns a response or a rejection,
  and its new state.\<close>

type_synonym ('c, 'q) client = "'c \<Rightarrow> 'q params \<Rightarrow> (error + 'q response) \<times> 'c"

text \<open>\<open>response.pageInfo?.nextPage\<close>.\<close>

definition nextPage_of :: "'q response \<Rightarrow> 'q jsopt" where
  "nextPage_of response =
     (case pageInfo response of Has info \<Rightarrow> nextPage info | _ \<Rightarrow> Missing)"

definition first_params :: "'q params" where
  "first_params =
     \<lparr>path = ''products.json'',
      query = FirstQuery
        ''id,title,handle,variants,images,body_html,vendor,product_type,status,options,tags''
        ''250''\<rparr>"

text \<open>The \<open>while\<close> loop. It has no bound of its own, so it is a partial function:
  \<open>None\<close> is the loop that never ends.\<close>

partial_function (option) fetch_loop ::
  "('c, 'q) client \<Rightarrow> 'c \<Rightarrow> 'q response \<Rightarrow> product list \<Rightarrow> ((error + product list) \<times> 'c) option"
where
  "fetch_loop get c response products =
     (case nextPage_of response of
        Has q \<Rightarrow>
          (case get c \<lparr>path = ''products.json'', query = NextQuery q\<rparr> of
             (Inl e, c') \<Rightarrow> Some (Inl e, c')
           | (Inr response', c') \<Rightarrow>
               fetch_loop get c' response' (products @ body_products response'))
      | _ \<Rightarrow> Some (Inr products, c))"

definition fetchAllProducts ::
  "('c, 'q) client \<Rightarrow> 'c \<Rightarrow> ((error + product list) \<times> 'c) option"
where
  "fetchAllProducts get c =
     (case get c first_params of
        (Inl e, c') \<Rightarrow> Some (Inl e, c')
      | (Inr response, c') \<Rightarrow> fetch_loop get c' response ([] @ body_products response))"

subsection \<open>GET\<close>

text \<open>\<open>xs.map(f)\<close> where \<open>f\<close> may throw: the first exception ends the map.\<close>

fun map_throwing :: "('a \<Rightarrow> error + 'b) \<Rightarrow> 'a list \<Rightarrow> error + 'b list" where
  "map_throwing f [] = Inr []"
| "map_throwing f (x # xs) =
     (case f x of
        Inl e \<Rightarrow> Inl e
      | Inr y \<Rightarrow> (case map_throwing f xs of Inl e \<Rightarrow> Inl e | Inr ys \<Rightarrow> Inr (y # ys)))"

text \<open>\<open>xs.flatMap(f)\<close>, likewise.\<close>

fun flatMap_throwing :: "('a \<Rightarrow> error + 'b list) \<Rightarrow> 'a list \<Rightarrow> error + 'b list" where
  "flatMap_throwing f [] = Inr []"
| "flatMap_throwing f (x # xs) =
     (case f x of
        Inl e \<Rightarrow> Inl e
      | Inr ys \<Rightarrow> (case flatMap_throwing f xs of Inl e \<Rightarrow> Inl e | Inr zs \<Rightarrow> Inr (ys @ zs)))"

text \<open>The constant \<open>rows\<close> of \<open>GET\<close>.\<close>

definition GET_rows :: "js_engine \<Rightarrow> product list \<Rightarrow> error + string list" where
  "GET_rows rt products =
     flatMap_throwing (\<lambda>product. map_throwing (buildItemRow rt product) (variants product))
       (filter (\<lambda>p. status p = JStr ''active'') products)"

text \<open>The constant \<open>csv\<close> of \<open>GET\<close>.\<close>

definition GET_csv :: "string list \<Rightarrow> string" where
  "GET_csv rows = join [CHR 0x0A] (join '','' CSV_HEADERS # rows)"

record http_response =
  status_code :: nat
  content_type :: string
  body :: string

fun message :: "error \<Rightarrow> string" where
  "message (TypeError m) = m"
| "message (SourceError m) = m"

definition error_response :: "error \<Rightarrow> http_response" where
  "error_response e = \<lparr>status_code = 500, content_type = ''text/plain'', body = message e\<rparr>"

text \<open>\<open>GET\<close>, with the two environment variables and the client as arguments. An
  exception anywhere in the \<open>try\<close> block becomes the plain-text response.\<close>

definition GET ::
  "js_engine \<Rightarrow> jsval \<Rightarrow> jsval \<Rightarrow> ('c, 'q) client \<Rightarrow> 'c \<Rightarrow> (http_response \<times> 'c) option"
where
  "GET rt SHOPIFY_HOST_NAME SHOPIFY_ADMIN_ACCESS_TOKEN get c =
     (if \<not> truthy SHOPIFY_HOST_NAME \<or> \<not> truthy SHOPIFY_ADMIN_ACCESS_TOKEN
      then Some (\<lparr>status_code = 500, content_type = ''application/json'',
                   body = ''{\"error\":\"Missing Shopify credentials\"}''\<rparr>, c)
      else
        (case fetchAllProducts get c of
           None \<Rightarrow> None
         | Some (Inl e, c') \<Rightarrow> Some (error_response e, c')
         | Some (Inr products, c') \<Rightarrow>
             (case GET_rows rt products of
                Inl e \<Rightarrow> Some (error_response e, c')
              | Inr rows \<Rightarrow>
                  Some (\<lparr>status_code = 200, content_type = ''text/csv; charset=utf-8'',
                         body = GET_csv rows\<rparr>, c'))))"

subsection \<open>An engine for evaluating examples\<close>

text \<open>
  The examples below need concrete built-ins. This engine lower-cases the ASCII
  letters, reads the longest decimal prefix \<open>-ddd.ddd\<close> of a string exactly
  and prints a finite decimal exactly. It stands in for the real engine on the
  inputs of the examples only, where the two agree: ASCII names, and plain
  numerals (no exponent, no surrounding space) whose value binary64 represents
  exactly, such as \<open>19.50\<close>; on a string without a leading digit, such as
  \<open>undefined\<close>, both read NaN.
\<close>

definition ascii_lower :: "char \<Rightarrow> char" where
  "ascii_lower c =
     (if 65 \<le> (of_char c :: nat) \<and> (of_char c :: nat) \<le> 90
      then char_of ((of_char c :: nat) + 32) else c)"

definition is_digit :: "char \<Rightarrow> bool" where
  "is_digit c = (48 \<le> (of_char c :: nat) \<and> (of_char c :: nat) \<le> 57)"

definition digits_value :: "string \<Rightarrow> nat" where
  "digits_value ds = foldl (\<lambda>n c. 10 * n + ((of_char c :: nat) - 48)) 0 ds"

text \<open>The number read from the longest decimal prefix, and the rest of the
  string; NaN when there is no digit.\<close>

definition read_decimal :: "string \<Rightarrow> jsnum \<times> string" where
  "read_decimal s =
     (let neg = (take 1 s = ''-'');
          s1 = (if neg then drop 1 s else s);
          ip = takeWhile is_digit s1;
          r1 = dropWhile is_digit s1;
          fp = (if take 1 r1 = ''.'' then takeWhile is_digit (drop 1 r1) else []);
          r2 = (if take 1 r1 = ''.'' then dropWhile is_digit (drop 1 r1) else r1);
          v = (of_nat (digits_value ip) :: rat)
              + of_nat (digits_value fp) / 10 ^ length fp
      in if ip = [] \<and> fp = [] then (NaN, s)
         else (Fin (if neg then - v else v), r2))"

text \<open>The fraction digits of \<open>q\<close> in \<open>[0, 1)\<close>, at most \<open>n\<close> of them.\<close>

fun fraction_digits :: "nat \<Rightarrow> rat \<Rightarrow> string" where
  "fraction_digits 0 q = []"
| "fraction_digits (Suc n) q =
     (if q = 0 then []
      else (''0123456789'' ! nat \<lfloor>q * 10\<rfloor>)
           # fraction_digits n (q * 10 - of_int \<lfloor>q * 10\<rfloor>))"

definition print_decimal :: "rat \<Rightarrow> string" where
  "print_decimal q =
     (let a = \<bar>q\<bar>; f = fraction_digits 20 (a - of_int \<lfloor>a\<rfloor>)
      in (if q < 0 then ''-'' else []) @ digits (nat \<lfloor>a\<rfloor>)
         @ (if f = [] then [] else ''.'' @ f))"

definition decimal_engine :: js_engine where
  "decimal_engine =
     \<lparr>toLowerCase = map ascii_lower,
      parseFloat = (\<lambda>s. fst (read_decimal s)),
      stringToNumber = (\<lambda>s. if s = [] then Fin 0
                             else if snd (read_decimal s) = [] then fst (read_decimal s)
                             else NaN),
      numberToString = print_decimal\<rparr>"

subsection \<open>Example data\<close>

definition lotion_variant :: variant where
  "lotion_variant =
     \<lparr>v_id = JNum (Fin 7), sku = JStr [], v_title = JStr ''Default Title'',
      price = JStr ''19.50'', compare_at_price = JNull,
      inventory_management = JStr ''shopify'', inventory_quantity = JNum (Fin 3),
      barcode = JNull, weight = JNum (Fin (1 / 2)), weight_unit = JUndefined,
      option1 = JStr ''Red'', option2 = JNull, option3 = JNull\<rparr>"

definition lotion :: product where
  "lotion =
     \<lparr>p_id = JNum (Fin 42), p_title = JStr ''Lotion'', handle = JStr ''lotion'',
      body_html = JStr ''<p>Soft,   rich</p>'', vendor = JStr ''Acme'',
      product_type = JNull, status = JStr ''active'',
      images = Has [\<lparr>src = JStr ''a.png''\<rparr>, \<lparr>src = JStr ''b.png''\<rparr>],
      options = Has [\<lparr>o_name = JStr ''FARBE'', position = JNum (Fin 1)\<rparr>],
      variants = [lotion_variant]\<rparr>"

definition sale_variant :: variant where
  "sale_variant = lotion_variant\<lparr>price := JStr ''9.50'', compare_at_price := JStr ''10.00''\<rparr>"

subsection \<open>The option lookup in the specification's words\<close>

text \<open>
  The specification describes the lookup as: find the option of the product
  whose name matches the target case-insensitively; read the variant's slot at
  that option's 1-based position; the result is empty when there is no match or
  the slot is empty. The feed fields try a list of candidate names in order and
  take the first non-empty result. These definitions follow that wording;
  \<open>getVariantOptionByName\<close> and the three fields are compared with them below.
  Options are as the catalogue documents them: the name is a string and the
  position a natural number.
\<close>

fun is_string :: "jsval \<Rightarrow> bool" where
  "is_string (JStr s) = True"
| "is_string v = False"

definition position_index :: "jsval \<Rightarrow> nat option" where
  "position_index pos =
     (case pos of
        JNum (Fin q) \<Rightarrow> if of_int \<lfloor>q\<rfloor> = q \<and> 0 \<le> q \<and> q < 10 ^ 21 then Some (nat \<lfloor>q\<rfloor>) else None
      | _ \<Rightarrow> None)"

definition option_ok :: "product_option \<Rightarrow> bool" where
  "option_ok opt = (is_string (o_name opt) \<and> position_index (position opt) \<noteq> None)"

definition options_ok :: "product \<Rightarrow> bool" where
  "options_ok product = (case options product of Has os \<Rightarrow> list_all option_ok os | _ \<Rightarrow> True)"

definition name_matches :: "js_engine \<Rightarrow> string \<Rightarrow> product_option \<Rightarrow> bool" where
  "name_matches rt target opt =
     (case o_name opt of JStr s \<Rightarrow> toLowerCase rt s = toLowerCase rt target | _ \<Rightarrow> False)"

definition slot :: "variant \<Rightarrow> nat \<Rightarrow> jsval" where
  "slot variant k =
     (if k = 1 then option1 variant else if k = 2 then option2 variant
      else if k = 3 then option3 variant else JUndefined)"

definition option_value_spec :: "js_engine \<Rightarrow> product \<Rightarrow> variant \<Rightarrow> string \<Rightarrow> jsval" where
  "option_value_spec rt product variant target =
     (case options product of
        Has os \<Rightarrow>
          (case find (name_matches rt target) os of
             None \<Rightarrow> JNull
           | Some opt \<Rightarrow>
               (case position_index (position opt) of
                  Some k \<Rightarrow> if truthy (slot variant k) then slot variant k else JNull
                | None \<Rightarrow> JNull))
      | _ \<Rightarrow> JNull)"

definition first_nonempty :: "jsval list \<Rightarrow> jsval" where
  "first_nonempty candidates = (case filter truthy candidates of [] \<Rightarrow> JStr [] | x # _ \<Rightarrow> x)"

definition shirt :: product where
  "shirt = lotion\<lparr>options := Has [\<lparr>o_name = JStr ''Material'', position = JNum (Fin 3)\<rparr>,
                                  \<lparr>o_name = JStr ''COLOR'', position = JNum (Fin 2)\<rparr>,
                                  \<lparr>o_name = JStr ''Farbe'', position = JNum (Fin 1)\<rparr>,
                                  \<lparr>o_name = JStr Groesse, position = JNum (Fin 1)\<rparr>]\<rparr>"

definition shirt_variant :: variant where
  "shirt_variant = lotion_variant\<lparr>option1 := JStr ''XL'', option2 := JStr [], option3 := JStr ''Cotton''\<rparr>"

subsection \<open>Missing properties\<close>

text \<open>A scalar property is missing when its key is absent or its value is null;
  likewise an array. \<open>names_ok\<close> and \<open>description_ok\<close> say that two
  properties have the type the catalogue documents, when they are there at all:
  every option's name is a string, and the description is a string or falsy.\<close>

fun missing :: "jsval \<Rightarrow> bool" where
  "missing JUndefined = True"
| "missing JNull = True"
| "missing v = False"

fun missing_array :: "'a jsopt \<Rightarrow> bool" where
  "missing_array (Has xs) = False"
| "missing_array a = True"

definition names_ok :: "product \<Rightarrow> bool" where
  "names_ok product =
     (case options product of Has os \<Rightarrow> list_all (\<lambda>opt. is_string (o_name opt)) os | _ \<Rightarrow> True)"

definition description_ok :: "product \<Rightarrow> bool" where
  "description_ok product = (is_string (body_html product) \<or> (truthy (body_html product) = False))"

definition bare_variant :: variant where
  "bare_variant =
     \<lparr>v_id = JNum (Fin 7), sku = JUndefined, v_title = JStr ''Default Title'',
      price = JStr ''19.50'', compare_at_price = JUndefined,
      inventory_management = JNull, inventory_quantity = JNum (Fin 0),
      barcode = JUndefined, weight = JUndefined, weight_unit = JUndefined,
      option1 = JUndefined, option2 = JUndefined, option3 = JUndefined\<rparr>"

definition bare_product :: product where
  "bare_product =
     \<lparr>p_id = JNum (Fin 42), p_title = JStr ''Lotion'', handle = JStr ''lotion'',
      body_html = JNull, vendor = JUndefined, product_type = JUndefined,
      status = JStr ''active'', images = Missing, options = Missing,
      variants = [bare_variant]\<rparr>"

text \<open>The same product with one option that has a position and no name.\<close>

definition nameless_option_product :: product where
  "nameless_option_product =
     bare_product\<lparr>options := Has [\<lparr>o_name = JUndefined, position = JNum (Fin 1)\<rparr>]\<rparr>"

subsection \<open>A small catalogue\<close>

text \<open>A catalogue of three products. The second is a draft with three variants
  and a description that is not a string; its rows are never built.
  \<open>catalogue_rows\<close> are the three lines of the feed: one for the lotion, two
  for the shirt.\<close>

definition draft_product :: product where
  "draft_product = lotion\<lparr>status := JStr ''draft'', body_html := JBool True,
                          variants := [lotion_variant, sale_variant, bare_variant]\<rparr>"

definition catalogue :: "product list" where
  "catalogue = [lotion, draft_product, shirt\<lparr>variants := [shirt_variant, sale_variant]\<rparr>]"

definition catalogue_rows :: "string list" where
  "catalogue_rows =
     [''shopify_42_7,Lotion,'' @ [CHR 0x22] @ ''Soft, rich'' @ [CHR 0x22]
        @ '',https://lunaglow.de/products/lotion,a.png,b.png,in_stock,19.50 EUR,,Acme,new,,false,,42,Red,,,0.5 kg'',
      ''shopify_42_7,Lotion,'' @ [CHR 0x22] @ ''Soft, rich'' @ [CHR 0x22]
        @ '',https://lunaglow.de/products/lotion,a.png,b.png,in_stock,19.50 EUR,,Acme,new,,false,,42,XL,XL,Cotton,0.5 kg'',
      ''shopify_42_7,Lotion,'' @ [CHR 0x22] @ ''Soft, rich'' @ [CHR 0x22]
        @ '',https://lunaglow.de/products/lotion,a.png,b.png,in_stock,10.00 EUR,9.50 EUR,Acme,new,,false,,42,Red,Red,,0.5 kg'']"

subsection \<open>Paged sources\<close>

text \<open>
  \<open>serves get c req pages c'\<close>: asked \<open>req\<close> in state \<open>c\<close>, the client
  answers with the first of \<open>pages\<close>; every page but the last carries a
  continuation token, and the request built from that token is answered with
  the next page; the last page carries none, and the client is then in state
  \<open>c'\<close>. \<open>requests\<close> lists the requests of such a run, and \<open>logging\<close>
  makes a client record each request it receives.
\<close>

definition next_params :: "'q \<Rightarrow> 'q params" where
  "next_params q = \<lparr>path = ''products.json'', query = NextQuery q\<rparr>"

fun serves :: "('c, 'q) client \<Rightarrow> 'c \<Rightarrow> 'q params \<Rightarrow> 'q response list \<Rightarrow> 'c \<Rightarrow> bool" where
  "serves get c req [] c' = False"
| "serves get c req (r # rs) c' =
     (case get c req of
        (Inl e, c1) \<Rightarrow> False
      | (Inr r', c1) \<Rightarrow>
          r' = r \<and>
          (case nextPage_of r of
             Has q \<Rightarrow> serves get c1 (next_params q) rs c'
           | _ \<Rightarrow> rs = [] \<and> c1 = c'))"

fun requests :: "'q params \<Rightarrow> 'q response list \<Rightarrow> 'q params list" where
  "requests req [] = []"
| "requests req (r # rs) =
     req # (case nextPage_of r of Has q \<Rightarrow> requests (next_params q) rs | _ \<Rightarrow> [])"

definition logging :: "('c, 'q) client \<Rightarrow> ('c \<times> 'q params list, 'q) client" where
  "logging get = (\<lambda>(c, tr) req. case get c req of (res, c') \<Rightarrow> (res, (c', tr @ [req])))"

text \<open>A client that serves the pages of a list by index, counting its requests,
  and one that returns a continuation token with every answer.\<close>

definition paged_get :: "product list list \<Rightarrow> (nat, nat) client" where
  "paged_get pages c req =
     (let i = (case query req of FirstQuery f l \<Rightarrow> 0 | NextQuery j \<Rightarrow> j)
      in if i < length pages
         then (Inr \<lparr>body_products = pages ! i,
                    pageInfo = (if i + 1 < length pages then Has \<lparr>nextPage = Has (i + 1)\<rparr>
                                else Missing)\<rparr>, c + 1)
         else (Inl (SourceError ''page not found''), c + 1))"

definition three_pages :: "product list list" where
  "three_pages = [[lotion, draft_product], [shirt], [bare_product]]"

definition three_responses :: "nat response list" where
  "three_responses =
     [\<lparr>body_products = [lotion, draft_product], pageInfo = Has \<lparr>nextPage = Has 1\<rparr>\<rparr>,
      \<lparr>body_products = [shirt], pageInfo = Has \<lparr>nextPage = Has 2\<rparr>\<rparr>,
      \<lparr>body_products = [bare_product], pageInfo = Missing\<rparr>]"

definition endless_get :: "(nat, nat) client" where
  "endless_get c req =
     (Inr \<lparr>body_products = [], pageInfo = Has \<lparr>nextPage = Has (c + 1)\<rparr>\<rparr>, c + 1)"

subsection \<open>Reading a CSV line\<close>

text \<open>
  The reader of a line under the usual quoting rules, written from their
  statement and not from the route (which only writes CSV): fields are split at
  the commas that are outside quotes; a field that begins with a double quote
  runs to the matching closing quote, and inside it two double quotes stand for
  one; after the closing quote only a comma or the end of the line may follow.
  The result is \<open>None\<close> for a line that breaks these rules. \<open>field_text\<close>
  is the text a field stands for: the empty string for a falsy value.
\<close>

datatype csv_state = FieldStart | InPlain | InQuoted | AfterQuote

fun push :: "char \<Rightarrow> string list option \<Rightarrow> string list option" where
  "push c (Some (f # fs)) = Some ((c # f) # fs)"
| "push c r = None"

fun new_field :: "string list option \<Rightarrow> string list option" where
  "new_field (Some fs) = Some ([] # fs)"
| "new_field None = None"

fun parse_csv :: "csv_state \<Rightarrow> string \<Rightarrow> string list option" where
  "parse_csv st [] = (if st = InQuoted then None else Some [[]])"
| "parse_csv FieldStart (c # cs) =
     (if c = CHR 0x22 then parse_csv InQuoted cs
      else if c = CHR '','' then new_field (parse_csv FieldStart cs)
      else push c (parse_csv InPlain cs))"
| "parse_csv InPlain (c # cs) =
     (if c = CHR '','' then new_field (parse_csv FieldStart cs)
      else push c (parse_csv InPlain cs))"
| "parse_csv InQuoted (c # cs) =
     (if c = CHR 0x22 then parse_csv AfterQuote cs
      else push c (parse_csv InQuoted cs))"
| "parse_csv AfterQuote (c # cs) =
     (if c = CHR 0x22 then push (CHR 0x22) (parse_csv InQuoted cs)
      else if c = CHR '','' then new_field (parse_csv FieldStart cs)
      else None)"

definition parse_line :: "string \<Rightarrow> string list option" where
  "parse_line s = parse_csv FieldStart s"

definition field_text :: "js_engine \<Rightarrow> jsval \<Rightarrow> string" where
  "field_text rt v = (if truthy v then ToString rt v else [])"

text \<open>What follows a field: the end of the line, or a comma and the other fields.\<close>

fun field_end :: "string \<Rightarrow> bool" where
  "field_end [] = True"
| "field_end (c # cs) = (c = CHR '','')"

definition tricky_cells :: "jsval list" where
  "tricky_cells =
     map JStr
       [''sku-1'', ''Lotion, large'', ''6'' @ [CHR 0x22] @ '' tube'', ''two'' @ [CHR 0x0A] @ ''lines'',
        [], [CHR 0x22], '','', [CHR 0x22, CHR 0x22], [CHR 0x22] @ '','' @ [CHR 0x22],
        ''a.png,b.png'', ''new'', [], ''false'', [], ''42'', ''Red'', [], [], ''0.5 kg'']"

section \<open>Availability\<close>

lemma js_gt_zero_Fin [simp]: "js_gt_zero rt (JNum (Fin n)) = (0 < n)"
  by (simp add: js_gt_zero_def)

text \<open>
  C1 (amended). The availability resolver returns \<open>out_of_stock\<close> when the
  product's status is not \<open>active\<close>. Otherwise it returns \<open>in_stock\<close> when
  the variant's inventory management mode is null, whatever the quantity.
  Otherwise (a mode that is set, and also one that is absent) it returns
  \<open>in_stock\<close> if and only if the quantity is greater than 0, else
  \<open>out_of_stock\<close>; for a quantity that is a number \<open>n\<close> this is \<open>0 < n\<close>.
\<close>

theorem getAvailability_cases:
  "(st \<noteq> JStr ''active'' \<longrightarrow> getAvailability rt v st = ''out_of_stock'')
   \<and> (st = JStr ''active'' \<and> inventory_management v = JNull
        \<longrightarrow> getAvailability rt v st = ''in_stock'')
   \<and> (st = JStr ''active'' \<and> inventory_management v \<noteq> JNull
        \<longrightarrow> (getAvailability rt v st = ''in_stock'' \<longleftrightarrow> js_gt_zero rt (inventory_quantity v))
            \<and> (getAvailability rt v st = ''out_of_stock'' \<longleftrightarrow> \<not> js_gt_zero rt (inventory_quantity v)))
   \<and> (st = JStr ''active'' \<and> inventory_management v \<noteq> JNull
        \<and> inventory_quantity v = JNum (Fin n)
        \<longrightarrow> getAvailability rt v st = (if 0 < n then ''in_stock'' else ''out_of_stock''))"
  by (simp add: getAvailability_def)

theorem getAvailability_cases_witness:
  "getAvailability decimal_engine lotion_variant (JStr ''draft'') = ''out_of_stock''
   \<and> getAvailability decimal_engine
        (lotion_variant\<lparr>inventory_management := JNull, inventory_quantity := JNum (Fin (- 2))\<rparr>)
        (JStr ''active'') = ''in_stock''
   \<and> getAvailability decimal_engine lotion_variant (JStr ''active'') = ''in_stock''
   \<and> getAvailability decimal_engine (lotion_variant\<lparr>inventory_quantity := JNum (Fin 0)\<rparr>)
        (JStr ''active'') = ''out_of_stock''"
  using getAvailability_cases [of "JStr ''draft''" decimal_engine lotion_variant]
    getAvailability_cases [of "JStr ''active''" decimal_engine
      "lotion_variant\<lparr>inventory_management := JNull, inventory_quantity := JNum (Fin (- 2))\<rparr>"]
    getAvailability_cases [of "JStr ''active''" decimal_engine lotion_variant 3]
    getAvailability_cases [of "JStr ''active''" decimal_engine
      "lotion_variant\<lparr>inventory_quantity := JNum (Fin 0)\<rparr>" 0]
  by (simp add: lotion_variant_def)

text \<open>A variant whose \<open>inventory_management\<close> key is absent is not treated as
  untracked: \<open>undefined === null\<close> is false, and with quantity 0 the variant of
  an active product is out of stock.\<close>

theorem getAvailability_unset_counterexample:
  "inventory_management (lotion_variant\<lparr>inventory_management := JUndefined,
                                         inventory_quantity := JNum (Fin 0)\<rparr>) = JUndefined
   \<and> getAvailability decimal_engine
        (lotion_variant\<lparr>inventory_management := JUndefined, inventory_quantity := JNum (Fin 0)\<rparr>)
        (JStr ''active'') \<noteq> ''in_stock''"
  by (simp add: getAvailability_def lotion_variant_def)

section \<open>CSV escaping\<close>

lemma double_quotes_concat:
  "double_quotes s = concat (map (\<lambda>c. if c = CHR 0x22 then [CHR 0x22, CHR 0x22] else [c]) s)"
  by (induction s) simp_all

text \<open>
  C3. \<open>escapeCsv\<close> maps a falsy value to the empty string. Otherwise, with
  \<open>t\<close> the text of the value: if \<open>t\<close> contains a double quote, a comma or a
  newline, the result is \<open>t\<close> between double quotes with every double quote
  of \<open>t\<close> written twice; if not, the result is \<open>t\<close>.
\<close>

theorem escapeCsv_spec:
  "escapeCsv rt v =
     (if \<not> truthy v then []
      else if \<exists>c \<in> set (ToString rt v). c = CHR 0x22 \<or> c = CHR '','' \<or> c = CHR 0x0A
      then [CHR 0x22]
           @ concat (map (\<lambda>c. if c = CHR 0x22 then [CHR 0x22, CHR 0x22] else [c]) (ToString rt v))
           @ [CHR 0x22]
      else ToString rt v)"
  by (auto simp: escapeCsv_def Let_def double_quotes_concat)

theorem escapeCsv_spec_witness:
  "escapeCsv decimal_engine JNull = []
   \<and> escapeCsv decimal_engine (JNum (Fin 0)) = []
   \<and> escapeCsv decimal_engine (JStr ''a,b'') = [CHR 0x22] @ ''a,b'' @ [CHR 0x22]
   \<and> escapeCsv decimal_engine (JStr (''6'' @ [CHR 0x22] @ '' x''))
       = [CHR 0x22] @ ''6'' @ [CHR 0x22, CHR 0x22] @ '' x'' @ [CHR 0x22]
   \<and> escapeCsv decimal_engine (JStr ''plain text'') = ''plain text''
   \<and> escapeCsv decimal_engine (JNum (Fin 42)) = ''42''"
proof -
  have "digits 42 = ''42''" by (simp add: digits.simps)
  then show ?thesis
    using escapeCsv_spec [of decimal_engine JNull]
      escapeCsv_spec [of decimal_engine "JNum (Fin 0)"]
      escapeCsv_spec [of decimal_engine "JStr ''a,b''"]
      escapeCsv_spec [of decimal_engine "JStr (''6'' @ [CHR 0x22] @ '' x'')"]
      escapeCsv_spec [of decimal_engine "JStr ''plain text''"]
      escapeCsv_spec [of decimal_engine "JNum (Fin 42)"]
    by (simp add: int_to_string_def)
qed

section \<open>Price tier\<close>

lemma point_before_last_two:
  assumes "3 \<le> length m"
  shows "\<exists>ip d1 d2. ip \<noteq> []
           \<and> s @ take (length m - 2) m @ ''.'' @ drop (length m - 2) m = ip @ [CHR ''.'', d1, d2]"
proof -
  from assms have "length (drop (length m - 2) m) = 2" by simp
  then obtain d1 d2 where d: "drop (length m - 2) m = [d1, d2]"
    by (cases "drop (length m - 2) m" rule: list.exhaust; simp; metis length_0_conv length_Suc_conv)
  from assms have ne: "s @ take (length m - 2) m \<noteq> []" by auto
  have "s @ take (length m - 2) m @ ''.'' @ drop (length m - 2) m
          = (s @ take (length m - 2) m) @ [CHR ''.'', d1, d2]"
    by (simp add: d)
  with ne show ?thesis by blast
qed

text \<open>Formatting to two decimals: below \<open>10^21\<close> the text ends with a point and
  exactly two more characters.\<close>

lemma toFixed2_two_decimals:
  assumes "\<bar>x\<bar> < 10 ^ 21"
  shows "\<exists>ip d1 d2. ip \<noteq> [] \<and> toFixed2 rt (Fin x) = ip @ [CHR ''.'', d1, d2]"
proof -
  let ?m = "digits (nat \<lfloor>\<bar>x\<bar> * 100 + 1 / 2\<rfloor>)"
  let ?m' = "if length ?m \<le> 2 then replicate (3 - length ?m) (CHR ''0'') @ ?m else ?m"
  have pad: "3 \<le> length ?m'" by auto
  from assms have "(10 ^ 21 \<le> \<bar>x\<bar>) = False" by simp
  then have eq: "toFixed2 rt (Fin x) =
      (if x < 0 then ''-'' else []) @ take (length ?m' - 2) ?m' @ ''.'' @ drop (length ?m' - 2) ?m'"
    by (simp only: toFixed2.simps Let_def if_False)
  show ?thesis unfolding eq by (rule point_before_last_two [OF pad])
qed

lemma buildItemRow_row_prices:
  assumes "buildItemRow_row rt p v = Inr row"
  shows "row ! 7 = JStr (regularPrice rt v) \<and> row ! 8 = JStr (salePrice rt v)"
  using assms by (auto simp: buildItemRow_row_def Let_def split: sum.splits)

text \<open>
  C2. A sale applies if and only if the compare-at price is present (truthy) and
  the number \<open>parseFloat\<close> reads from it is greater than the number read from
  the price; the comparison is the one on numbers (\<open>b < a\<close> for finite values),
  not the one on strings. A missing compare-at price never gives a sale, and for
  a compare-at price that is a string the comparison alone decides (the empty
  string reads as NaN). When a sale applies, the \<open>sale_price\<close> field (column
  8) is the price formatted with \<open>toFixed(2)\<close>, a space and the currency code,
  and the \<open>price\<close> field (column 7) is the compare-at price so formatted. When
  no sale applies, the \<open>price\<close> field is the price so formatted and
  \<open>sale_price\<close> is the empty string. So \<open>sale_price\<close> is non-empty exactly
  when a sale applies.
\<close>

theorem price_tier:
  assumes "buildItemRow_row rt p v = Inr row"
  defines "sale \<equiv> truthy (compare_at_price v)
                    \<and> num_gt (js_parseFloat rt (compare_at_price v)) (js_parseFloat rt (price v))"
  shows "(truthy (hasSalePrice rt v) \<longleftrightarrow> sale)
       \<and> (sale \<longrightarrow> row ! 8 = JStr (toFixed2 rt (js_parseFloat rt (price v)) @ '' '' @ CURRENCY)
                  \<and> row ! 7 = JStr (toFixed2 rt (js_parseFloat rt (compare_at_price v)) @ '' '' @ CURRENCY))
       \<and> (\<not> sale \<longrightarrow> row ! 7 = JStr (toFixed2 rt (js_parseFloat rt (price v)) @ '' '' @ CURRENCY)
                    \<and> row ! 8 = JStr [])
       \<and> (row ! 8 \<noteq> JStr [] \<longleftrightarrow> sale)
       \<and> (\<forall>a b. js_parseFloat rt (compare_at_price v) = Fin a \<and> js_parseFloat rt (price v) = Fin b
              \<longrightarrow> (sale \<longleftrightarrow> truthy (compare_at_price v) \<and> b < a))
       \<and> (\<forall>s. compare_at_price v = JStr s \<and> parseFloat rt [] = NaN
              \<longrightarrow> (sale \<longleftrightarrow> num_gt (parseFloat rt s) (js_parseFloat rt (price v))))
       \<and> (missing (compare_at_price v) \<longrightarrow> \<not> sale)
       \<and> CSV_HEADERS ! 7 = ''price'' \<and> CSV_HEADERS ! 8 = ''sale_price''"
proof -
  have h: "truthy (hasSalePrice rt v) \<longleftrightarrow> sale"
    by (simp add: hasSalePrice_def js_and_def sale_def)
  have r: "row ! 7 = JStr (regularPrice rt v)" "row ! 8 = JStr (salePrice rt v)"
    using buildItemRow_row_prices [OF assms(1)] by simp_all
  have str: "\<forall>s. compare_at_price v = JStr s \<and> parseFloat rt [] = NaN
              \<longrightarrow> (sale \<longleftrightarrow> num_gt (parseFloat rt s) (js_parseFloat rt (price v)))"
    by (auto simp: sale_def js_parseFloat_def)
  have mis: "missing (compare_at_price v) \<longrightarrow> \<not> sale"
    by (cases "compare_at_price v") (simp_all add: sale_def)
  have rest: "(sale \<longrightarrow> row ! 8 = JStr (toFixed2 rt (js_parseFloat rt (price v)) @ '' '' @ CURRENCY)
                  \<and> row ! 7 = JStr (toFixed2 rt (js_parseFloat rt (compare_at_price v)) @ '' '' @ CURRENCY))
       \<and> (\<not> sale \<longrightarrow> row ! 7 = JStr (toFixed2 rt (js_parseFloat rt (price v)) @ '' '' @ CURRENCY)
                    \<and> row ! 8 = JStr [])
       \<and> (row ! 8 \<noteq> JStr [] \<longleftrightarrow> sale)
       \<and> (\<forall>a b. js_parseFloat rt (compare_at_price v) = Fin a \<and> js_parseFloat rt (price v) = Fin b
              \<longrightarrow> (sale \<longleftrightarrow> truthy (compare_at_price v) \<and> b < a))"
    unfolding r
    by (auto simp: h regularPrice_def salePrice_def CURRENCY_def sale_def)
  have hd: "CSV_HEADERS ! 7 = ''price'' \<and> CSV_HEADERS ! 8 = ''sale_price''"
    by (simp add: CSV_HEADERS_def)
  from h rest str mis hd show ?thesis by blast
qed

text \<open>The compare-at price \<open>10.00\<close> is below the price \<open>9.50\<close> as a string and
  above it as a number: the sale applies. The variant without a compare-at price
  has no sale.\<close>

theorem price_tier_witness:
  "buildItemRow_row decimal_engine lotion sale_variant =
     Inr [JStr ''shopify_42_7'', JStr ''Lotion'', JStr ''Soft, rich'',
          JStr ''https://lunaglow.de/products/lotion'', JStr ''a.png'', JStr ''b.png'',
          JStr ''in_stock'', JStr ''10.00 EUR'', JStr ''9.50 EUR'', JStr ''Acme'', JStr ''new'',
          JStr [], JStr ''false'', JStr [], JNum (Fin 42), JStr ''Red'', JStr [], JStr [],
          JStr ''0.5 kg'']
   \<and> truthy (hasSalePrice decimal_engine sale_variant)
   \<and> (''10.00'' :: string) < ''9.50''
   \<and> buildItemRow_row decimal_engine lotion lotion_variant =
     Inr [JStr ''shopify_42_7'', JStr ''Lotion'', JStr ''Soft, rich'',
          JStr ''https://lunaglow.de/products/lotion'', JStr ''a.png'', JStr ''b.png'',
          JStr ''in_stock'', JStr ''19.50 EUR'', JStr [], JStr ''Acme'', JStr ''new'',
          JStr [], JStr ''false'', JStr [], JNum (Fin 42), JStr ''Red'', JStr [], JStr [],
          JStr ''0.5 kg'']
   \<and> \<not> truthy (hasSalePrice decimal_engine lotion_variant)"
proof -
  have a: "buildItemRow_row decimal_engine lotion sale_variant =
     Inr [JStr ''shopify_42_7'', JStr ''Lotion'', JStr ''Soft, rich'',
          JStr ''https://lunaglow.de/products/lotion'', JStr ''a.png'', JStr ''b.png'',
          JStr ''in_stock'', JStr ''10.00 EUR'', JStr ''9.50 EUR'', JStr ''Acme'', JStr ''new'',
          JStr [], JStr ''false'', JStr [], JNum (Fin 42), JStr ''Red'', JStr [], JStr [],
          JStr ''0.5 kg'']"
    by code_simp
  have b: "buildItemRow_row decimal_engine lotion lotion_variant =
     Inr [JStr ''shopify_42_7'', JStr ''Lotion'', JStr ''Soft, rich'',
          JStr ''https://lunaglow.de/products/lotion'', JStr ''a.png'', JStr ''b.png'',
          JStr ''in_stock'', JStr ''19.50 EUR'', JStr [], JStr ''Acme'', JStr ''new'',
          JStr [], JStr ''false'', JStr [], JNum (Fin 42), JStr ''Red'', JStr [], JStr [],
          JStr ''0.5 kg'']"
    by code_simp
  have c: "(''10.00'' :: string) < ''9.50''" by code_simp
  from price_tier [OF a]
  have "truthy (hasSalePrice decimal_engine sale_variant) \<longleftrightarrow> JStr ''9.50 EUR'' \<noteq> JStr []"
    by simp
  moreover from price_tier [OF b]
  have "truthy (hasSalePrice decimal_engine lotion_variant) \<longleftrightarrow> JStr [] \<noteq> JStr []"
    by simp
  ultimately show ?thesis using a b c by simp
qed

section \<open>Variant options\<close>

lemma digits_nonempty: "digits n \<noteq> []"
  by (subst digits.simps) simp

lemma digits_single: "digits k = [c] \<longleftrightarrow> k < 10 \<and> c = ''0123456789'' ! k"
proof (cases "k < 10")
  case True
  then show ?thesis by (subst digits.simps) auto
next
  case False
  then have "digits k = digits (k div 10) @ [''0123456789'' ! (k mod 10)]"
    by (subst digits.simps) simp
  with digits_nonempty [of "k div 10"] False show ?thesis
    by (cases "digits (k div 10)") auto
qed

lemma digit_char_eq:
  assumes "k < 10"
  shows "''0123456789'' ! k = CHR ''1'' \<longleftrightarrow> k = 1"
    and "''0123456789'' ! k = CHR ''2'' \<longleftrightarrow> k = 2"
    and "''0123456789'' ! k = CHR ''3'' \<longleftrightarrow> k = 3"
proof -
  from assms have "k \<in> {0, 1, 2, 3, 4, 5, 6, 7, 8, 9}" by auto
  then show "''0123456789'' ! k = CHR ''1'' \<longleftrightarrow> k = 1"
    and "''0123456789'' ! k = CHR ''2'' \<longleftrightarrow> k = 2"
    and "''0123456789'' ! k = CHR ''3'' \<longleftrightarrow> k = 3"
    by auto
qed

lemma digits_eq_123:
  "digits k = ''1'' \<longleftrightarrow> k = 1" "digits k = ''2'' \<longleftrightarrow> k = 2" "digits k = ''3'' \<longleftrightarrow> k = 3"
  using digit_char_eq [of k] by (auto simp: digits_single)

lemma key_slot:
  assumes "position_index pos = Some k"
  shows "variant_prop v (''option'' @ ToString rt pos) = slot v k"
proof -
  from assms obtain q where q: "pos = JNum (Fin q)" "of_int \<lfloor>q\<rfloor> = q" "0 \<le> q" "q < 10 ^ 21" "k = nat \<lfloor>q\<rfloor>"
    by (auto simp: position_index_def split: jsval.splits jsnum.splits if_splits)
  then have "ToString rt pos = digits k"
    by (simp add: int_to_string_def)
  then show ?thesis
    by (simp add: variant_prop_def slot_def digits_eq_123)
qed

lemma find_option_find:
  assumes "list_all option_ok os"
  shows "find_option rt os n = Inr (find (name_matches rt n) os)"
  using assms
proof (induction os)
  case Nil
  then show ?case by simp
next
  case (Cons opt os)
  then obtain s where "o_name opt = JStr s"
    by (cases "o_name opt") (auto simp: option_ok_def)
  with Cons show ?case by (simp add: name_matches_def)
qed

lemma getVariantOptionByName_spec:
  assumes "options_ok p"
  shows "getVariantOptionByName rt p v n = Inr (option_value_spec rt p v n)"
proof (cases "options p")
  case (Has os)
  with assms have ok: "list_all option_ok os" by (simp add: options_ok_def)
  show ?thesis
  proof (cases "find (name_matches rt n) os")
    case None
    with Has ok show ?thesis
      by (simp add: getVariantOptionByName_def option_value_spec_def find_option_find)
  next
    case (Some opt)
    then have "opt \<in> set os" by (auto simp: find_Some_iff)
    with ok have "option_ok opt" by (simp add: list_all_iff)
    then obtain k where k: "position_index (position opt) = Some k"
      by (auto simp: option_ok_def)
    with Has ok Some show ?thesis
      by (simp add: getVariantOptionByName_def option_value_spec_def find_option_find
          key_slot [OF k, simplified] js_or_def)
  qed
qed (simp_all add: getVariantOptionByName_def option_value_spec_def)

lemma option_value_spec_cong:
  "toLowerCase rt n = toLowerCase rt n' \<Longrightarrow> option_value_spec rt p v n = option_value_spec rt p v n'"
proof -
  assume "toLowerCase rt n = toLowerCase rt n'"
  then have eq: "name_matches rt n = name_matches rt n'"
    by (auto simp: name_matches_def fun_eq_iff split: jsval.splits)
  show ?thesis unfolding option_value_spec_def eq by (rule refl)
qed


lemma buildItemRow_row_options:
  assumes "buildItemRow_row rt p v = Inr row"
  shows "color rt p v = Inr (row ! 15) \<and> size_field rt p v = Inr (row ! 16)
         \<and> material rt p v = Inr (row ! 17)"
  using assms by (auto simp: buildItemRow_row_def Let_def split: sum.splits)

text \<open>
  C6. For a product whose options have string names and numeric positions,
  \<open>getVariantOptionByName\<close> returns what the specification describes: the
  slot (\<open>option1\<close> for position 1, and so on) of the first option whose
  lower-cased name equals the lower-cased target, and null when no option
  matches or the slot is empty; two targets that differ only in case give the
  same result. The colour field (column 15) is the first non-empty result for
  \<open>Color\<close>, then \<open>Farbe\<close>; the size field (column 16) for \<open>Size\<close>, then
  the German name; the material field (column 17) for \<open>Material\<close> alone; each
  is the empty string when no candidate gives a value.
\<close>

theorem variant_option_lookup:
  assumes "options_ok p"
  shows "getVariantOptionByName rt p v n = Inr (option_value_spec rt p v n)
       \<and> (toLowerCase rt n = toLowerCase rt n'
            \<longrightarrow> getVariantOptionByName rt p v n = getVariantOptionByName rt p v n')
       \<and> color rt p v = Inr (first_nonempty [option_value_spec rt p v ''Color'',
                                               option_value_spec rt p v ''Farbe''])
       \<and> size_field rt p v = Inr (first_nonempty [option_value_spec rt p v ''Size'',
                                                    option_value_spec rt p v Groesse])
       \<and> material rt p v = Inr (first_nonempty [option_value_spec rt p v ''Material''])
       \<and> (\<forall>row. buildItemRow_row rt p v = Inr row \<longrightarrow>
             row ! 15 = first_nonempty [option_value_spec rt p v ''Color'',
                                        option_value_spec rt p v ''Farbe'']
           \<and> row ! 16 = first_nonempty [option_value_spec rt p v ''Size'',
                                         option_value_spec rt p v Groesse]
           \<and> row ! 17 = first_nonempty [option_value_spec rt p v ''Material''])
       \<and> CSV_HEADERS ! 15 = ''color'' \<and> CSV_HEADERS ! 16 = ''size''
       \<and> CSV_HEADERS ! 17 = ''material''"
proof -
  note lookup = getVariantOptionByName_spec [OF assms]
  have c: "color rt p v = Inr (first_nonempty [option_value_spec rt p v ''Color'',
                                               option_value_spec rt p v ''Farbe''])"
    by (simp add: color_def lookup or_else_def first_nonempty_def)
  have s: "size_field rt p v = Inr (first_nonempty [option_value_spec rt p v ''Size'',
                                                    option_value_spec rt p v Groesse])"
    by (simp add: size_field_def lookup or_else_def first_nonempty_def)
  have m: "material rt p v = Inr (first_nonempty [option_value_spec rt p v ''Material''])"
    by (simp add: material_def lookup or_else_def first_nonempty_def)
  have i: "toLowerCase rt n = toLowerCase rt n'
            \<longrightarrow> getVariantOptionByName rt p v n = getVariantOptionByName rt p v n'"
    using option_value_spec_cong [of rt n n' p v] by (simp only: lookup) simp
  have r: "\<forall>row. buildItemRow_row rt p v = Inr row \<longrightarrow>
             row ! 15 = first_nonempty [option_value_spec rt p v ''Color'',
                                        option_value_spec rt p v ''Farbe'']
           \<and> row ! 16 = first_nonempty [option_value_spec rt p v ''Size'',
                                         option_value_spec rt p v Groesse]
           \<and> row ! 17 = first_nonempty [option_value_spec rt p v ''Material'']"
  proof (intro allI impI)
    fix row
    assume "buildItemRow_row rt p v = Inr row"
    from buildItemRow_row_options [OF this] c s m
    show "row ! 15 = first_nonempty [option_value_spec rt p v ''Color'',
                                     option_value_spec rt p v ''Farbe'']
        \<and> row ! 16 = first_nonempty [option_value_spec rt p v ''Size'',
                                      option_value_spec rt p v Groesse]
        \<and> row ! 17 = first_nonempty [option_value_spec rt p v ''Material'']"
      by simp
  qed
  have h: "CSV_HEADERS ! 15 = ''color''" "CSV_HEADERS ! 16 = ''size''"
    "CSV_HEADERS ! 17 = ''material''"
    by (simp_all add: CSV_HEADERS_def)
  show ?thesis by (intro conjI lookup i c s m r h)
qed

theorem variant_option_lookup_witness:
  "options_ok shirt
   \<and> getVariantOptionByName decimal_engine shirt shirt_variant ''material'' = Inr (JStr ''Cotton'')
   \<and> getVariantOptionByName decimal_engine shirt shirt_variant ''Color'' = Inr JNull
   \<and> getVariantOptionByName decimal_engine shirt shirt_variant ''Farbe'' = Inr (JStr ''XL'')
   \<and> getVariantOptionByName decimal_engine shirt shirt_variant ''Weight'' = Inr JNull
   \<and> color decimal_engine shirt shirt_variant = Inr (JStr ''XL'')
   \<and> size_field decimal_engine shirt shirt_variant = Inr (JStr ''XL'')
   \<and> material decimal_engine shirt shirt_variant = Inr (JStr ''Cotton'')"
proof -
  have ok: "options_ok shirt" by code_simp
  have v: "option_value_spec decimal_engine shirt shirt_variant ''material'' = JStr ''Cotton''"
    "option_value_spec decimal_engine shirt shirt_variant ''Material'' = JStr ''Cotton''"
    "option_value_spec decimal_engine shirt shirt_variant ''Color'' = JNull"
    "option_value_spec decimal_engine shirt shirt_variant ''Farbe'' = JStr ''XL''"
    "option_value_spec decimal_engine shirt shirt_variant ''Weight'' = JNull"
    "option_value_spec decimal_engine shirt shirt_variant ''Size'' = JNull"
    "option_value_spec decimal_engine shirt shirt_variant Groesse = JStr ''XL''"
    by code_simp+
  show ?thesis
    using ok variant_option_lookup [OF ok, of decimal_engine shirt_variant "''material''"]
      variant_option_lookup [OF ok, of decimal_engine shirt_variant "''Color''"]
      variant_option_lookup [OF ok, of decimal_engine shirt_variant "''Farbe''"]
      variant_option_lookup [OF ok, of decimal_engine shirt_variant "''Weight''"]
    by (simp add: v first_nonempty_def)
qed

section \<open>Missing optional properties\<close>

lemma missing_falsy: "missing v \<Longrightarrow> \<not> truthy v"
  by (cases v) simp_all

lemma find_option_total:
  assumes "list_all (\<lambda>opt. is_string (o_name opt)) os"
  shows "\<exists>r. find_option rt os n = Inr r"
  using assms
proof (induction os)
  case Nil
  then show ?case by simp
next
  case (Cons opt os)
  then obtain s where "o_name opt = JStr s" by (cases "o_name opt") auto
  with Cons show ?case by simp
qed

lemma getVariantOptionByName_total:
  assumes "names_ok p"
  shows "\<exists>r. getVariantOptionByName rt p v n = Inr r"
proof (cases "options p")
  case (Has os)
  with assms have "list_all (\<lambda>opt. is_string (o_name opt)) os" by (simp add: names_ok_def)
  from find_option_total [OF this] obtain r where "find_option rt os n = Inr r" by blast
  with Has show ?thesis by (cases r) (simp_all add: getVariantOptionByName_def)
qed (simp_all add: getVariantOptionByName_def)

lemma or_else_total:
  assumes "\<exists>x. a = Inr x" "\<exists>y. b = Inr y"
  shows "\<exists>z. or_else a b = Inr z"
  using assms by (auto simp: or_else_def)

lemma option_fields_total:
  assumes "names_ok p"
  shows "\<exists>c. color rt p v = Inr c" "\<exists>s. size_field rt p v = Inr s" "\<exists>m. material rt p v = Inr m"
  unfolding color_def size_field_def material_def
  by (intro or_else_total getVariantOptionByName_total [OF assms] exI [of _ "JStr []"] refl)+

lemma stripHtml_total:
  assumes "description_ok p"
  shows "\<exists>d. stripHtml (body_html p) = Inr d"
  using assms by (cases "body_html p") (auto simp: description_ok_def)

lemma option_fields_missing:
  assumes "missing_array (options p)"
  shows "color rt p v = Inr (JStr [])" "size_field rt p v = Inr (JStr [])" "material rt p v = Inr (JStr [])"
  using assms
  by (cases "options p"; simp add: color_def size_field_def material_def getVariantOptionByName_def or_else_def)+

lemma buildItemRow_row_total:
  assumes "description_ok p" "names_ok p"
  shows "\<exists>d c s m. stripHtml (body_html p) = Inr d \<and> color rt p v = Inr c \<and> size_field rt p v = Inr s \<and> material rt p v = Inr m
    \<and> buildItemRow_row rt p v =
      Inr [variantId rt p v, title rt p v, JStr d, JStr (link rt p), imageLink p,
           JStr (additionalImages rt p), JStr (getAvailability rt v (status p)),
           JStr (regularPrice rt v), JStr (salePrice rt v), js_or (vendor p) (JStr []),
           JStr ''new'', js_or (barcode v) (JStr []),
           JStr (if truthy (js_or (barcode v) (JStr [])) then [] else ''false''),
           js_or (product_type p) (JStr []), p_id p, c, s, m, JStr (weight_field rt v)]"
proof -
  from stripHtml_total [OF assms(1)] obtain d where d: "stripHtml (body_html p) = Inr d" by blast
  from option_fields_total [OF assms(2), of rt v] obtain c s m where
    o: "color rt p v = Inr c" "size_field rt p v = Inr s" "material rt p v = Inr m" by blast
  show ?thesis
    by (simp add: buildItemRow_row_def d o Let_def)
qed


lemma buildItemRow_total:
  assumes "buildItemRow_row rt p v = Inr row"
  shows "\<exists>line. buildItemRow rt p v = Inr line"
  using assms by (simp add: buildItemRow_def)

text \<open>Outside these two conditions the builder can raise: it does whenever the
  description is truthy and not a string, and whenever the first option's name
  is not a string.\<close>

lemma buildItemRow_row_raises_description:
  assumes "\<not> description_ok p"
  shows "\<exists>e. buildItemRow_row rt p v = Inl e"
  using assms
  by (cases "body_html p") (auto simp: description_ok_def buildItemRow_row_def)

lemma buildItemRow_row_raises_name:
  assumes "options p = Has (opt # os)" and "\<not> is_string (o_name opt)"
  shows "\<exists>e. buildItemRow_row rt p v = Inl e"
proof -
  from assms(2) have "\<exists>e. find_option rt (opt # os) ''Color'' = Inl e"
    by (cases "o_name opt") simp_all
  with assms(1) have "\<exists>e. color rt p v = Inl e"
    by (auto simp: color_def or_else_def getVariantOptionByName_def)
  then show ?thesis
    by (auto simp: buildItemRow_row_def split: sum.splits)
qed

text \<open>
  C7 (amended). For every product and variant such that every option of the
  product has a string for its name and the description is a string or falsy
  (\<open>names_ok\<close> and \<open>description_ok\<close>), row construction raises no error,
  whichever of images, options, barcode, weight, weight unit, vendor, product
  type, description, SKU, compare-at price and price are missing, and returns 19
  fields. Each field affected by a missing property other than the price has its
  default: no images, empty image fields; no options, empty colour,
  size and material; no barcode, empty \<open>gtin\<close> and \<open>identifier_exists\<close>
  \<open>false\<close>; no weight, empty shipping weight; no unit, \<open>kg\<close>; no vendor,
  product type or description, the empty string; no SKU, the synthetic
  identifier; no compare-at price, no sale price and the price as regular price.
  Nothing is promised about the price field when the price is missing, nor
  about a product with an option whose name is not a string or a description
  that is truthy and not a string.
\<close>

theorem buildItemRow_defaults:
  assumes "description_ok p" and "names_ok p"
  shows "\<exists>row line. buildItemRow_row rt p v = Inr row \<and> buildItemRow rt p v = Inr line
    \<and> length row = 19
    \<and> (missing_array (images p) \<longrightarrow> row ! 4 = JStr [] \<and> row ! 5 = JStr [])
    \<and> (missing_array (options p) \<longrightarrow> row ! 15 = JStr [] \<and> row ! 16 = JStr [] \<and> row ! 17 = JStr [])
    \<and> (missing (barcode v) \<longrightarrow> row ! 11 = JStr [] \<and> row ! 12 = JStr ''false'')
    \<and> (missing (weight v) \<longrightarrow> row ! 18 = JStr [])
    \<and> (missing (weight_unit v) \<and> truthy (weight v) \<and> js_gt_zero rt (weight v)
          \<longrightarrow> row ! 18 = JStr (ToString rt (weight v) @ '' kg''))
    \<and> (missing (vendor p) \<longrightarrow> row ! 9 = JStr [])
    \<and> (missing (product_type p) \<longrightarrow> row ! 13 = JStr [])
    \<and> (missing (body_html p) \<longrightarrow> row ! 2 = JStr [])
    \<and> (missing (sku v) \<longrightarrow>
          row ! 0 = JStr (''shopify_'' @ ToString rt (p_id p) @ ''_'' @ ToString rt (v_id v)))
    \<and> (missing (compare_at_price v) \<longrightarrow>
          row ! 8 = JStr []
          \<and> row ! 7 = JStr (toFixed2 rt (js_parseFloat rt (price v)) @ '' '' @ CURRENCY))"
proof -
  from buildItemRow_row_total [OF assms, of rt v] obtain d c s m where
    d: "stripHtml (body_html p) = Inr d" and c: "color rt p v = Inr c"
    and s: "size_field rt p v = Inr s" and m: "material rt p v = Inr m"
    and row: "buildItemRow_row rt p v =
      Inr [variantId rt p v, title rt p v, JStr d, JStr (link rt p), imageLink p,
           JStr (additionalImages rt p), JStr (getAvailability rt v (status p)),
           JStr (regularPrice rt v), JStr (salePrice rt v), js_or (vendor p) (JStr []),
           JStr ''new'', js_or (barcode v) (JStr []),
           JStr (if truthy (js_or (barcode v) (JStr [])) then [] else ''false''),
           js_or (product_type p) (JStr []), p_id p, c, s, m, JStr (weight_field rt v)]"
    by blast
  let ?row = "[variantId rt p v, title rt p v, JStr d, JStr (link rt p), imageLink p,
           JStr (additionalImages rt p), JStr (getAvailability rt v (status p)),
           JStr (regularPrice rt v), JStr (salePrice rt v), js_or (vendor p) (JStr []),
           JStr ''new'', js_or (barcode v) (JStr []),
           JStr (if truthy (js_or (barcode v) (JStr [])) then [] else ''false''),
           js_or (product_type p) (JStr []), p_id p, c, s, m, JStr (weight_field rt v)]"
  from buildItemRow_total [OF row] obtain line where line: "buildItemRow rt p v = Inr line"
    by blast
  have images: "missing_array (images p) \<longrightarrow> ?row ! 4 = JStr [] \<and> ?row ! 5 = JStr []"
    by (cases "images p") (simp_all add: imageLink_def additionalImages_def js_or_def)
  have opts: "missing_array (options p) \<longrightarrow> ?row ! 15 = JStr [] \<and> ?row ! 16 = JStr [] \<and> ?row ! 17 = JStr []"
    using option_fields_missing [of p rt v] c s m by auto
  have bar: "missing (barcode v) \<longrightarrow> ?row ! 11 = JStr [] \<and> ?row ! 12 = JStr ''false''"
    by (auto simp: js_or_def dest: missing_falsy)
  have w: "missing (weight v) \<longrightarrow> ?row ! 18 = JStr []"
    by (auto simp: weight_field_def js_and_def dest: missing_falsy)
  have wu: "missing (weight_unit v) \<and> truthy (weight v) \<and> js_gt_zero rt (weight v)
          \<longrightarrow> ?row ! 18 = JStr (ToString rt (weight v) @ '' kg'')"
    by (auto simp: weight_field_def js_and_def js_or_def dest: missing_falsy)
  have ven: "missing (vendor p) \<longrightarrow> ?row ! 9 = JStr []"
    by (auto simp: js_or_def dest: missing_falsy)
  have pt: "missing (product_type p) \<longrightarrow> ?row ! 13 = JStr []"
    by (auto simp: js_or_def dest: missing_falsy)
  have desc: "missing (body_html p) \<longrightarrow> ?row ! 2 = JStr []"
    using d by (cases "body_html p") auto
  have sk: "missing (sku v) \<longrightarrow>
          ?row ! 0 = JStr (''shopify_'' @ ToString rt (p_id p) @ ''_'' @ ToString rt (v_id v))"
    by (auto simp: variantId_def js_or_def dest: missing_falsy)
  have cap: "missing (compare_at_price v) \<longrightarrow>
          ?row ! 8 = JStr []
          \<and> ?row ! 7 = JStr (toFixed2 rt (js_parseFloat rt (price v)) @ '' '' @ CURRENCY)"
    by (auto simp: salePrice_def regularPrice_def hasSalePrice_def js_and_def dest: missing_falsy)
  have len: "length ?row = 19" by simp
  show ?thesis
    by (intro exI [of _ ?row] exI [of _ line] conjI row line len images opts bar w wu ven pt desc sk cap)
qed

theorem buildItemRow_defaults_witness:
  "description_ok bare_product \<and> names_ok bare_product
   \<and> buildItemRow_row decimal_engine bare_product bare_variant =
       Inr [JStr ''shopify_42_7'', JStr ''Lotion'', JStr [],
            JStr ''https://lunaglow.de/products/lotion'', JStr [], JStr [],
            JStr ''in_stock'', JStr ''19.50 EUR'', JStr [], JStr [], JStr ''new'',
            JStr [], JStr ''false'', JStr [], JNum (Fin 42), JStr [], JStr [], JStr [],
            JStr []]
   \<and> buildItemRow decimal_engine bare_product bare_variant =
       Inr ''shopify_42_7,Lotion,,https://lunaglow.de/products/lotion,,,in_stock,19.50 EUR,,,new,,false,,42,,,,''"
proof -
  have ok: "description_ok bare_product" "names_ok bare_product" by code_simp+
  have r: "buildItemRow_row decimal_engine bare_product bare_variant =
       Inr [JStr ''shopify_42_7'', JStr ''Lotion'', JStr [],
            JStr ''https://lunaglow.de/products/lotion'', JStr [], JStr [],
            JStr ''in_stock'', JStr ''19.50 EUR'', JStr [], JStr [], JStr ''new'',
            JStr [], JStr ''false'', JStr [], JNum (Fin 42), JStr [], JStr [], JStr [],
            JStr []]"
    by code_simp
  have l: "buildItemRow decimal_engine bare_product bare_variant =
       Inr ''shopify_42_7,Lotion,,https://lunaglow.de/products/lotion,,,in_stock,19.50 EUR,,,new,,false,,42,,,,''"
    by code_simp
  from buildItemRow_defaults [OF ok, of decimal_engine bare_variant]
  obtain row line where "buildItemRow_row decimal_engine bare_product bare_variant = Inr row"
    "buildItemRow decimal_engine bare_product bare_variant = Inr line" by blast
  with ok r l show ?thesis by simp
qed

text \<open>The claim fails in three ways. With the price missing,
  \<open>parseFloat(undefined)\<close> is NaN and the price field reads \<open>NaN EUR\<close>,
  which is neither empty nor a default. With every optional property missing and
  one option that has no name, \<open>o.name.toLowerCase()\<close> raises a
  \<open>TypeError\<close>; so does \<open>html.replace\<close> on a description that is
  \<open>true\<close>, whatever else is missing.\<close>

theorem buildItemRow_missing_price_counterexample:
  "missing (price (lotion_variant\<lparr>price := JUndefined\<rparr>))
   \<and> buildItemRow_row decimal_engine lotion (lotion_variant\<lparr>price := JUndefined\<rparr>) =
       Inr [JStr ''shopify_42_7'', JStr ''Lotion'', JStr ''Soft, rich'',
            JStr ''https://lunaglow.de/products/lotion'', JStr ''a.png'', JStr ''b.png'',
            JStr ''in_stock'', JStr ''NaN EUR'', JStr [], JStr ''Acme'', JStr ''new'',
            JStr [], JStr ''false'', JStr [], JNum (Fin 42), JStr ''Red'', JStr [], JStr [],
            JStr ''0.5 kg'']
   \<and> missing_array (images nameless_option_product)
   \<and> missing (sku bare_variant) \<and> missing (barcode bare_variant)
   \<and> buildItemRow decimal_engine nameless_option_product bare_variant =
       Inl (TypeError (''Cannot read properties of undefined (reading '' @ [CHR 0x27]
                        @ ''toLowerCase'' @ [CHR 0x27] @ '')''))
   \<and> missing (compare_at_price lotion_variant)
   \<and> buildItemRow decimal_engine (lotion\<lparr>body_html := JBool True\<rparr>) lotion_variant =
       Inl (TypeError ''html.replace is not a function'')"
  by code_simp

section \<open>Feed assembly\<close>

lemma map_throwing_Inr: "map_throwing f xs = Inr ys \<longleftrightarrow> map f xs = map Inr ys"
proof (induction xs arbitrary: ys)
  case Nil
  then show ?case by auto
next
  case (Cons x xs)
  show ?case
  proof (cases "f x")
    case (Inl e)
    then show ?thesis by (cases ys) auto
  next
    case (Inr y)
    show ?thesis
    proof (cases "map_throwing f xs")
      case (Inl e)
      with Cons.IH have "\<And>zs. map f xs \<noteq> map Inr zs" by auto
      with Inl Inr show ?thesis by (cases ys) auto
    next
      case r: (Inr zs)
      with Cons.IH [of zs] have "map f xs = map Inr zs" by simp
      with r Inr show ?thesis by (cases ys) (auto simp: inj_map_eq_map)
    qed
  qed
qed

lemma flatMap_throwing_Inr:
  fixes rows :: "'c list"
  shows "flatMap_throwing (\<lambda>x. map_throwing (g x) (h x)) xs = Inr rows
     \<longleftrightarrow> concat (map (\<lambda>x. map (g x) (h x)) xs) = map Inr rows"
proof (induction xs arbitrary: rows)
  case Nil
  then show ?case by auto
next
  case (Cons x xs)
  show ?case
  proof (cases "map_throwing (g x) (h x)")
    case (Inl e)
    then have "\<And>ys. map (g x) (h x) \<noteq> map Inr ys"
      using map_throwing_Inr [of "g x" "h x"] by auto
    with Inl show ?thesis by (auto simp: append_eq_map_conv)
  next
    case (Inr ys)
    then have ys: "map (g x) (h x) = map Inr ys" by (simp add: map_throwing_Inr)
    show ?thesis
    proof (cases "flatMap_throwing (\<lambda>x. map_throwing (g x) (h x)) xs")
      case (Inl e)
      with Cons.IH have no: "\<And>zs. concat (map (\<lambda>x. map (g x) (h x)) xs) \<noteq> map Inr zs" by auto
      from Inl Inr show ?thesis using no by (auto simp: ys append_eq_map_conv)
    next
      case r: (Inr zs)
      with Cons.IH [of zs] have zs: "concat (map (\<lambda>x. map (g x) (h x)) xs) = map Inr zs" by simp
      have "map Inr ys @ map Inr zs = (map Inr rows :: (error + 'c) list) \<longleftrightarrow> ys @ zs = rows"
        by (metis inj_Inr inj_map_eq_map map_append)
      with r Inr show ?thesis by (auto simp: ys zs)
    qed
  qed
qed

lemma GET_rows_total:
  assumes "list_all (\<lambda>p. description_ok p \<and> names_ok p) (filter (\<lambda>p. status p = JStr ''active'') ps)"
  shows "\<exists>rows. GET_rows rt ps = Inr rows"
proof -
  have row: "\<exists>line. buildItemRow rt p v = Inr line" if "description_ok p" "names_ok p" for p v
    using buildItemRow_row_total [OF that, of rt v] by (auto simp: buildItemRow_def)
  have m: "\<exists>ys. map_throwing (buildItemRow rt p) vs = Inr ys" if "description_ok p" "names_ok p" for p vs
  proof (induction vs)
    case Nil
    then show ?case by simp
  next
    case (Cons v vs)
    with row [OF that, of v] show ?case by auto
  qed
  have "\<exists>rows. flatMap_throwing (\<lambda>p. map_throwing (buildItemRow rt p) (variants p)) qs = Inr rows"
    if "list_all (\<lambda>p. description_ok p \<and> names_ok p) qs" for qs
    using that
  proof (induction qs)
    case Nil
    then show ?case by simp
  next
    case (Cons q qs)
    then obtain ys zs where "map_throwing (buildItemRow rt q) (variants q) = Inr ys"
      "flatMap_throwing (\<lambda>p. map_throwing (buildItemRow rt p) (variants p)) qs = Inr zs"
      using m [of q "variants q"] by auto
    then show ?case by simp
  qed
  from this [OF assms] show ?thesis by (simp add: GET_rows_def)
qed

lemma catalogue_GET_rows: "GET_rows decimal_engine catalogue = Inr catalogue_rows"
  by code_simp

text \<open>
  C4. The rows of the feed are, in order, the rows of the variants of the
  products whose status is \<open>active\<close>, product by product in fetch order and
  variant by variant within a product: \<open>GET_rows\<close> returns \<open>rows\<close> exactly
  when the list of all \<open>buildItemRow\<close> results over those pairs is \<open>rows\<close>,
  each a success. So there is one row per variant of every active product; a
  product that is not active adds no row, whatever its variants; and the rows
  exist whenever every active product has string option names and a description
  that is a string or falsy.
\<close>

theorem GET_rows_one_per_variant:
  "(GET_rows rt ps = Inr rows \<longleftrightarrow>
      concat (map (\<lambda>p. map (buildItemRow rt p) (variants p))
                  (filter (\<lambda>p. status p = JStr ''active'') ps)) = map Inr rows)
   \<and> (GET_rows rt ps = Inr rows \<longrightarrow>
        length rows = (\<Sum>p\<leftarrow>filter (\<lambda>p. status p = JStr ''active'') ps. length (variants p)))
   \<and> (status q \<noteq> JStr ''active'' \<longrightarrow> GET_rows rt (ps @ q # qs) = GET_rows rt (ps @ qs))
   \<and> (list_all (\<lambda>p. description_ok p \<and> names_ok p) (filter (\<lambda>p. status p = JStr ''active'') ps)
        \<longrightarrow> (\<exists>rows'. GET_rows rt ps = Inr rows'))"
proof -
  let ?act = "filter (\<lambda>p. status p = JStr ''active'') ps"
  have a: "GET_rows rt ps = Inr rows \<longleftrightarrow>
      concat (map (\<lambda>p. map (buildItemRow rt p) (variants p)) ?act) = map Inr rows"
    unfolding GET_rows_def by (rule flatMap_throwing_Inr)
  have b: "GET_rows rt ps = Inr rows \<longrightarrow> length rows = (\<Sum>p\<leftarrow>?act. length (variants p))"
  proof
    assume "GET_rows rt ps = Inr rows"
    with a have "length (concat (map (\<lambda>p. map (buildItemRow rt p) (variants p)) ?act)) = length (map Inr rows :: (error + string) list)"
      by simp
    then show "length rows = (\<Sum>p\<leftarrow>?act. length (variants p))"
      by (simp add: length_concat comp_def)
  qed
  have c: "status q \<noteq> JStr ''active'' \<longrightarrow> GET_rows rt (ps @ q # qs) = GET_rows rt (ps @ qs)"
    by (simp add: GET_rows_def)
  have d: "list_all (\<lambda>p. description_ok p \<and> names_ok p) ?act \<longrightarrow> (\<exists>rows'. GET_rows rt ps = Inr rows')"
    using GET_rows_total [of ps rt] by blast
  show ?thesis by (intro conjI a b c d)
qed

theorem GET_rows_one_per_variant_witness:
  "GET_rows decimal_engine catalogue = Inr catalogue_rows
   \<and> length catalogue_rows = 3
   \<and> map (\<lambda>p. (status p, length (variants p))) catalogue
       = [(JStr ''active'', 1), (JStr ''draft'', 3), (JStr ''active'', 2)]
   \<and> GET_rows decimal_engine [lotion, shirt\<lparr>variants := [shirt_variant, sale_variant]\<rparr>]
       = GET_rows decimal_engine catalogue"
proof -
  have s: "map (\<lambda>p. (status p, length (variants p))) catalogue
       = [(JStr ''active'', 1), (JStr ''draft'', 3), (JStr ''active'', 2)]"
    by code_simp
  have d: "status draft_product \<noteq> JStr ''active''" by code_simp
  have c: "catalogue = [lotion] @ draft_product # [shirt\<lparr>variants := [shirt_variant, sale_variant]\<rparr>]"
    by (simp add: catalogue_def)
  have n: "(\<Sum>p\<leftarrow>filter (\<lambda>p. status p = JStr ''active'') catalogue. length (variants p)) = 3"
    by code_simp
  from GET_rows_one_per_variant [of decimal_engine catalogue catalogue_rows draft_product]
    catalogue_GET_rows n
  have "length catalogue_rows = 3" by simp
  moreover from GET_rows_one_per_variant [of decimal_engine "[lotion]" catalogue_rows draft_product
      "[shirt\<lparr>variants := [shirt_variant, sale_variant]\<rparr>]"] d
  have "GET_rows decimal_engine [lotion, shirt\<lparr>variants := [shirt_variant, sale_variant]\<rparr>]
       = GET_rows decimal_engine catalogue"
    unfolding c by simp
  ultimately show ?thesis using catalogue_GET_rows s by simp
qed

section \<open>Serialization\<close>

lemma join_Cons: "join sep (x # xs) = (if xs = [] then x else x @ sep @ join sep xs)"
  by (cases xs) simp_all

lemma join_snoc: "xs \<noteq> [] \<Longrightarrow> join sep (xs @ [y]) = join sep xs @ sep @ y"
  by (induction xs) (auto simp: join_Cons)

lemma count_join:
  "count_list (join [c] xs) c = (length xs - 1) + (\<Sum>x\<leftarrow>xs. count_list x c)"
  by (induction xs) (auto simp: join_Cons)

lemma join_nonempty: "xs \<noteq> [] \<Longrightarrow> last xs \<noteq> [] \<Longrightarrow> join sep xs \<noteq> []"
  by (induction xs) (auto simp: join_Cons)

lemma last_join:
  assumes "xs \<noteq> []" "last xs \<noteq> []"
  shows "last (join sep xs) = last (last xs)"
  using assms
proof (induction xs)
  case Nil
  then show ?case by simp
next
  case (Cons x xs)
  show ?case
  proof (cases "xs = []")
    case True
    then show ?thesis by simp
  next
    case False
    with Cons.prems have "last xs \<noteq> []" by simp
    with False Cons.IH join_nonempty [of xs sep] show ?thesis
      by (simp add: join_Cons)
  qed
qed

text \<open>An escaped field is empty or ends with a character that is not a newline.\<close>

lemma escapeCsv_last: "escapeCsv rt v = [] \<or> last (escapeCsv rt v) \<noteq> CHR 0x0A"
proof (cases "truthy v")
  case False
  then show ?thesis by (simp add: escapeCsv_def)
next
  case True
  show ?thesis
  proof (cases "CHR 0x22 \<in> set (ToString rt v) \<or> CHR '','' \<in> set (ToString rt v) \<or> CHR 0x0A \<in> set (ToString rt v)")
    case True
    with \<open>truthy v\<close> have "escapeCsv rt v = [CHR 0x22] @ double_quotes (ToString rt v) @ [CHR 0x22]"
      by (simp add: escapeCsv_def Let_def)
    then show ?thesis by simp
  next
    case False
    with \<open>truthy v\<close> have e: "escapeCsv rt v = ToString rt v" by (simp add: escapeCsv_def Let_def)
    from False have "CHR 0x0A \<notin> set (ToString rt v)" by simp
    then have "ToString rt v = [] \<or> last (ToString rt v) \<noteq> CHR 0x0A"
      using last_in_set by metis
    with e show ?thesis by simp
  qed
qed

lemma row_line_last:
  assumes "2 \<le> length cells"
  shows "join '','' (map (escapeCsv rt) cells) \<noteq> []
       \<and> last (join '','' (map (escapeCsv rt) cells)) \<noteq> CHR 0x0A"
proof -
  from assms obtain fs f where f: "cells = fs @ [f]" "fs \<noteq> []"
    by (cases cells rule: rev_cases) (auto simp: Suc_le_eq)
  then have j: "join '','' (map (escapeCsv rt) cells)
                 = join '','' (map (escapeCsv rt) fs) @ '','' @ escapeCsv rt f"
    by (simp add: join_snoc)
  from escapeCsv_last [of rt f] show ?thesis
    unfolding j by (cases "escapeCsv rt f = []") auto
qed

lemma buildItemRow_last:
  assumes "buildItemRow rt p v = Inr line"
  shows "line \<noteq> [] \<and> last line \<noteq> CHR 0x0A"
proof -
  from assms obtain row where row: "buildItemRow_row rt p v = Inr row"
    and line: "line = join '','' (map (escapeCsv rt) row)"
    by (auto simp: buildItemRow_def split: sum.splits)
  from row have "length row = 19"
    by (auto simp: buildItemRow_row_def Let_def split: sum.splits)
  then have "2 \<le> length row" by simp
  from row_line_last [OF this] line show ?thesis by simp
qed

lemma GET_rows_lines:
  assumes "GET_rows rt ps = Inr rows" "r \<in> set rows"
  shows "\<exists>p v. buildItemRow rt p v = Inr r"
proof -
  from assms(1) have "concat (map (\<lambda>p. map (buildItemRow rt p) (variants p))
                  (filter (\<lambda>p. status p = JStr ''active'') ps)) = map Inr rows"
    by (simp add: GET_rows_def flatMap_throwing_Inr)
  moreover from assms(2) have "Inr r \<in> set (map Inr rows :: (error + string) list)" by simp
  ultimately have "Inr r \<in> set (concat (map (\<lambda>p. map (buildItemRow rt p) (variants p))
                  (filter (\<lambda>p. status p = JStr ''active'') ps)))" by simp
  then obtain p v where "Inr r = buildItemRow rt p v" by auto
  then have "buildItemRow rt p v = Inr r" by simp
  then show ?thesis by blast
qed

lemma header_line:
  "join '','' CSV_HEADERS = ''id,title,description,link,image_link,additional_image_link,availability,price,sale_price,brand,condition,gtin,identifier_exists,product_type,item_group_id,color,size,material,shipping_weight''"
  by (simp add: CSV_HEADERS_def)

text \<open>
  C8. The document is the header line followed by the rows, joined by single
  newline characters: it holds exactly one separating newline per row (any other
  newline lies inside a row, in a quoted field), and for the rows of a feed it
  does not end with a newline. The header is the 19 column names joined by
  commas, in the order \<open>id\<close>, \<open>title\<close>, \<open>description\<close>, \<open>link\<close>,
  \<open>image_link\<close>, \<open>additional_image_link\<close>, \<open>availability\<close>, \<open>price\<close>,
  \<open>sale_price\<close>, \<open>brand\<close>, \<open>condition\<close>, \<open>gtin\<close>,
  \<open>identifier_exists\<close>, \<open>product_type\<close>, \<open>item_group_id\<close>, \<open>color\<close>,
  \<open>size\<close>, \<open>material\<close>, \<open>shipping_weight\<close>. Every row is its 19 escaped
  fields joined by commas, and the fields stand in the order of the columns.
\<close>

theorem GET_csv_layout:
  "GET_csv rows = join [CHR 0x0A]
      (''id,title,description,link,image_link,additional_image_link,availability,price,sale_price,brand,condition,gtin,identifier_exists,product_type,item_group_id,color,size,material,shipping_weight'' # rows)
   \<and> length CSV_HEADERS = 19
   \<and> count_list (GET_csv rows) (CHR 0x0A) = length rows + (\<Sum>r\<leftarrow>rows. count_list r (CHR 0x0A))
   \<and> (GET_rows rt ps = Inr rows \<longrightarrow>
         GET_csv rows \<noteq> [] \<and> last (GET_csv rows) \<noteq> CHR 0x0A
         \<and> (\<forall>r \<in> set rows. \<exists>p v cells. buildItemRow_row rt p v = Inr cells
                \<and> r = join '','' (map (escapeCsv rt) cells)))
   \<and> (buildItemRow_row rt p v = Inr cells \<longrightarrow>
         (\<exists>d c s m. stripHtml (body_html p) = Inr d \<and> color rt p v = Inr c
            \<and> size_field rt p v = Inr s \<and> material rt p v = Inr m
            \<and> zip CSV_HEADERS cells =
                [(''id'', variantId rt p v),
                 (''title'', title rt p v),
                 (''description'', JStr d),
                 (''link'', JStr (link rt p)),
                 (''image_link'', imageLink p),
                 (''additional_image_link'', JStr (additionalImages rt p)),
                 (''availability'', JStr (getAvailability rt v (status p))),
                 (''price'', JStr (regularPrice rt v)),
                 (''sale_price'', JStr (salePrice rt v)),
                 (''brand'', js_or (vendor p) (JStr [])),
                 (''condition'', JStr ''new''),
                 (''gtin'', js_or (barcode v) (JStr [])),
                 (''identifier_exists'',
                    JStr (if truthy (js_or (barcode v) (JStr [])) then [] else ''false'')),
                 (''product_type'', js_or (product_type p) (JStr [])),
                 (''item_group_id'', p_id p),
                 (''color'', c),
                 (''size'', s),
                 (''material'', m),
                 (''shipping_weight'', JStr (weight_field rt v))]
            \<and> length cells = 19))"
proof -
  let ?h = "''id,title,description,link,image_link,additional_image_link,availability,price,sale_price,brand,condition,gtin,identifier_exists,product_type,item_group_id,color,size,material,shipping_weight''"
  have a: "GET_csv rows = join [CHR 0x0A] (?h # rows)"
    by (simp only: GET_csv_def header_line)
  have b: "length CSV_HEADERS = 19" by (simp add: CSV_HEADERS_def)
  have h0: "count_list ?h (CHR 0x0A) = 0" by simp
  have c: "count_list (GET_csv rows) (CHR 0x0A) = length rows + (\<Sum>r\<leftarrow>rows. count_list r (CHR 0x0A))"
    unfolding a count_join using h0 by simp
  have d: "GET_rows rt ps = Inr rows \<longrightarrow>
         GET_csv rows \<noteq> [] \<and> last (GET_csv rows) \<noteq> CHR 0x0A
         \<and> (\<forall>r \<in> set rows. \<exists>p v cells. buildItemRow_row rt p v = Inr cells
                \<and> r = join '','' (map (escapeCsv rt) cells))"
  proof
    assume g: "GET_rows rt ps = Inr rows"
    have each: "r \<noteq> [] \<and> last r \<noteq> CHR 0x0A" if "r \<in> set rows" for r
      using GET_rows_lines [OF g that] buildItemRow_last by blast
    have l: "last (?h # rows) \<noteq> [] \<and> last (last (?h # rows)) \<noteq> CHR 0x0A"
    proof (cases "rows = []")
      case True
      then show ?thesis by simp
    next
      case False
      then have "last rows \<in> set rows" by simp
      from each [OF this] False show ?thesis by simp
    qed
    have ne: "GET_csv rows \<noteq> []"
      unfolding a using join_nonempty [of "?h # rows" "[CHR 0x0A]"] l by blast
    have la: "last (GET_csv rows) \<noteq> CHR 0x0A"
      unfolding a using last_join [of "?h # rows" "[CHR 0x0A]"] l by simp
    have cells: "\<forall>r \<in> set rows. \<exists>p v cells. buildItemRow_row rt p v = Inr cells
                \<and> r = join '','' (map (escapeCsv rt) cells)"
    proof
      fix r assume "r \<in> set rows"
      from GET_rows_lines [OF g this] obtain p v where "buildItemRow rt p v = Inr r" by blast
      then show "\<exists>p v cells. buildItemRow_row rt p v = Inr cells
                \<and> r = join '','' (map (escapeCsv rt) cells)"
        by (auto simp: buildItemRow_def split: sum.splits)
    qed
    from ne la cells show "GET_csv rows \<noteq> [] \<and> last (GET_csv rows) \<noteq> CHR 0x0A
         \<and> (\<forall>r \<in> set rows. \<exists>p v cells. buildItemRow_row rt p v = Inr cells
                \<and> r = join '','' (map (escapeCsv rt) cells))"
      by blast
  qed
  have e: "buildItemRow_row rt p v = Inr cells \<longrightarrow>
         (\<exists>d c s m. stripHtml (body_html p) = Inr d \<and> color rt p v = Inr c
            \<and> size_field rt p v = Inr s \<and> material rt p v = Inr m
            \<and> zip CSV_HEADERS cells =
                [(''id'', variantId rt p v),
                 (''title'', title rt p v),
                 (''description'', JStr d),
                 (''link'', JStr (link rt p)),
                 (''image_link'', imageLink p),
                 (''additional_image_link'', JStr (additionalImages rt p)),
                 (''availability'', JStr (getAvailability rt v (status p))),
                 (''price'', JStr (regularPrice rt v)),
                 (''sale_price'', JStr (salePrice rt v)),
                 (''brand'', js_or (vendor p) (JStr [])),
                 (''condition'', JStr ''new''),
                 (''gtin'', js_or (barcode v) (JStr [])),
                 (''identifier_exists'',
                    JStr (if truthy (js_or (barcode v) (JStr [])) then [] else ''false'')),
                 (''product_type'', js_or (product_type p) (JStr [])),
                 (''item_group_id'', p_id p),
                 (''color'', c),
                 (''size'', s),
                 (''material'', m),
                 (''shipping_weight'', JStr (weight_field rt v))]
            \<and> length cells = 19)"
    by (auto simp: buildItemRow_row_def Let_def CSV_HEADERS_def split: sum.splits)
  show ?thesis by (intro conjI a b c d e)
qed

theorem GET_csv_layout_witness:
  "GET_rows decimal_engine catalogue = Inr catalogue_rows
   \<and> GET_csv catalogue_rows =
       ''id,title,description,link,image_link,additional_image_link,availability,price,sale_price,brand,condition,gtin,identifier_exists,product_type,item_group_id,color,size,material,shipping_weight''
       @ [CHR 0x0A] @ catalogue_rows ! 0 @ [CHR 0x0A] @ catalogue_rows ! 1
       @ [CHR 0x0A] @ catalogue_rows ! 2
   \<and> count_list (GET_csv catalogue_rows) (CHR 0x0A) = 3
   \<and> last (GET_csv catalogue_rows) \<noteq> CHR 0x0A"
proof -
  have n: "length catalogue_rows + (\<Sum>r\<leftarrow>catalogue_rows. count_list r (CHR 0x0A)) = 3"
    by code_simp
  have j: "join [CHR 0x0A] (h # catalogue_rows) =
      h @ [CHR 0x0A] @ catalogue_rows ! 0 @ [CHR 0x0A] @ catalogue_rows ! 1
       @ [CHR 0x0A] @ catalogue_rows ! 2" for h
    by (simp add: catalogue_rows_def)
  note L = GET_csv_layout [of catalogue_rows decimal_engine catalogue]
  note a = L [THEN conjunct1]
  note c = L [THEN conjunct2, THEN conjunct2, THEN conjunct1]
  note d = L [THEN conjunct2, THEN conjunct2, THEN conjunct2, THEN conjunct1, rule_format,
              OF catalogue_GET_rows, THEN conjunct2, THEN conjunct1]
  show ?thesis
    by (intro conjI catalogue_GET_rows a [unfolded j] c [unfolded n] d)
qed

section \<open>Pagination\<close>

lemma fetch_loop_stop:
  assumes "nextPage_of r = Missing \<or> nextPage_of r = IsNull"
  shows "fetch_loop get c r acc = Some (Inr acc, c)"
  using assms by (subst fetch_loop.simps) auto

lemma fetch_loop_serves:
  assumes "nextPage_of r = Has q" and "serves get c (next_params q) rs c'"
  shows "fetch_loop get c r acc = Some (Inr (acc @ concat (map body_products rs)), c')"
  using assms
proof (induction rs arbitrary: r q c acc)
  case Nil
  then show ?case by simp
next
  case (Cons r1 rs)
  from Cons.prems(2) obtain c1 where g: "get c (next_params q) = (Inr r1, c1)"
    and rest: "case nextPage_of r1 of Has q1 \<Rightarrow> serves get c1 (next_params q1) rs c'
               | _ \<Rightarrow> rs = [] \<and> c1 = c'"
    by (auto split: prod.splits sum.splits)
  have step: "fetch_loop get c r acc = fetch_loop get c1 r1 (acc @ body_products r1)"
    using Cons.prems(1) g by (subst fetch_loop.simps) (simp add: next_params_def)
  show ?case
  proof (cases "nextPage_of r1")
    case (Has q1)
    with rest have "serves get c1 (next_params q1) rs c'" by simp
    from Cons.IH [OF Has this] step show ?thesis by simp
  next
    case Missing
    with rest fetch_loop_stop [of r1 get c1] step show ?thesis by simp
  next
    case IsNull
    with rest fetch_loop_stop [of r1 get c1] step show ?thesis by simp
  qed
qed

lemma fetchAllProducts_serves:
  assumes "serves get c first_params pages c'"
  shows "fetchAllProducts get c = Some (Inr (concat (map body_products pages)), c')"
proof (cases pages)
  case Nil
  with assms show ?thesis by simp
next
  case (Cons r rs)
  with assms obtain c1 where g: "get c first_params = (Inr r, c1)"
    and rest: "case nextPage_of r of Has q \<Rightarrow> serves get c1 (next_params q) rs c'
               | _ \<Rightarrow> rs = [] \<and> c1 = c'"
    by (auto split: prod.splits sum.splits)
  show ?thesis
  proof (cases "nextPage_of r")
    case (Has q)
    with rest have "serves get c1 (next_params q) rs c'" by simp
    from fetch_loop_serves [OF Has this] g Cons show ?thesis
      by (simp add: fetchAllProducts_def)
  next
    case Missing
    with rest fetch_loop_stop [of r get c1] g Cons show ?thesis
      by (simp add: fetchAllProducts_def)
  next
    case IsNull
    with rest fetch_loop_stop [of r get c1] g Cons show ?thesis
      by (simp add: fetchAllProducts_def)
  qed
qed

lemma serves_logging:
  assumes "serves get c req pages c'"
  shows "serves (logging get) (c, tr) req pages (c', tr @ requests req pages)"
  using assms
proof (induction pages arbitrary: c req tr)
  case Nil
  then show ?case by simp
next
  case (Cons r rs)
  from Cons.prems obtain c1 where g: "get c req = (Inr r, c1)"
    and rest: "case nextPage_of r of Has q \<Rightarrow> serves get c1 (next_params q) rs c'
               | _ \<Rightarrow> rs = [] \<and> c1 = c'"
    by (auto split: prod.splits sum.splits)
  have lg: "logging get (c, tr) req = (Inr r, (c1, tr @ [req]))"
    by (simp add: logging_def g)
  show ?case
  proof (cases "nextPage_of r")
    case (Has q)
    with rest have "serves get c1 (next_params q) rs c'" by simp
    from Cons.IH [OF this, of "tr @ [req]"] Has lg show ?thesis by simp
  next
    case Missing
    with rest lg show ?thesis by simp
  next
    case IsNull
    with rest lg show ?thesis by simp
  qed
qed

lemma length_requests:
  assumes "serves get c req pages c'"
  shows "length (requests req pages) = length pages"
  using assms
proof (induction pages arbitrary: c req)
  case Nil
  then show ?case by simp
next
  case (Cons r rs)
  then show ?case by (cases "nextPage_of r") (auto split: prod.splits sum.splits)
qed

text \<open>
  C5. For every sequence of pages that a client serves in which exactly the last
  page lacks a continuation token, \<open>fetchAllProducts\<close> returns, and returns
  the concatenation of the pages' products in page order, whose length is the
  sum of the page sizes. It sends one request per page and no more: the first
  request, then for each token the request built from it. Once a response has
  no token (absent or null) the loop issues no request and returns what it has.
\<close>

theorem fetchAllProducts_pages:
  assumes "serves get c first_params pages c'"
  shows "fetchAllProducts get c = Some (Inr (concat (map body_products pages)), c')
       \<and> length (concat (map body_products pages)) = (\<Sum>r\<leftarrow>pages. length (body_products r))
       \<and> fetchAllProducts (logging get) (c, []) =
           Some (Inr (concat (map body_products pages)), (c', requests first_params pages))
       \<and> length (requests first_params pages) = length pages
       \<and> (nextPage_of r = Missing \<or> nextPage_of r = IsNull
            \<longrightarrow> fetch_loop get s r acc = Some (Inr acc, s))"
proof -
  have a: "fetchAllProducts get c = Some (Inr (concat (map body_products pages)), c')"
    by (rule fetchAllProducts_serves [OF assms])
  have b: "length (concat (map body_products pages)) = (\<Sum>r\<leftarrow>pages. length (body_products r))"
    by (simp add: length_concat comp_def)
  have l: "fetchAllProducts (logging get) (c, []) =
           Some (Inr (concat (map body_products pages)), (c', requests first_params pages))"
    using fetchAllProducts_serves [OF serves_logging [OF assms, of "[]"]] by simp
  have n: "length (requests first_params pages) = length pages"
    by (rule length_requests [OF assms])
  have s: "nextPage_of r = Missing \<or> nextPage_of r = IsNull
            \<longrightarrow> fetch_loop get s r acc = Some (Inr acc, s)"
    using fetch_loop_stop [of r get s acc] by blast
  show ?thesis by (intro conjI a b l n s)
qed

theorem fetchAllProducts_pages_witness:
  "serves (paged_get three_pages) 0 first_params three_responses 3
   \<and> fetchAllProducts (paged_get three_pages) 0
       = Some (Inr [lotion, draft_product, shirt, bare_product], 3)
   \<and> fetchAllProducts (logging (paged_get three_pages)) (0, [])
       = Some (Inr [lotion, draft_product, shirt, bare_product],
               (3, [first_params, next_params 1, next_params 2]))
   \<and> fetch_loop (paged_get three_pages) 3 (last three_responses) [] = Some (Inr [], 3)"
proof -
  have s: "serves (paged_get three_pages) 0 first_params three_responses 3"
    by code_simp
  have c: "concat (map body_products three_responses) = [lotion, draft_product, shirt, bare_product]"
    by (simp add: three_responses_def)
  have r: "requests first_params three_responses = [first_params, next_params 1, next_params 2]"
    by (simp add: three_responses_def nextPage_of_def)
  have m: "nextPage_of (last three_responses) = Missing"
    by (simp add: three_responses_def nextPage_of_def)
  from fetchAllProducts_pages [OF s, where r = "last three_responses" and s = 3 and acc = "[]"] s m
  show ?thesis unfolding c r by simp
qed

section \<open>No iteration cap\<close>

lemma fetch_loop_never_returns:
  assumes always: "\<And>c req. \<exists>r c' q. get c req = (Inr r, c') \<and> nextPage_of r = Has q"
    and "nextPage_of r = Has q"
  shows "fetch_loop get c r acc = None"
proof (rule ccontr)
  assume "fetch_loop get c r acc \<noteq> None"
  then obtain y where y: "fetch_loop get c r acc = Some y" by auto
  have "g = get \<and> (\<exists>q. nextPage_of r = Has q) \<longrightarrow> False"
    if "fetch_loop g c r acc = Some y" for g
    using that
  proof (induction g c r acc y rule: fetch_loop.raw_induct [rotated 1, consumes 1])
    case (1 loop g c r acc y)
    note IH = "1"(1) and eq = "1"(2)
    show ?case
    proof
      assume a: "g = get \<and> (\<exists>q. nextPage_of r = Has q)"
      then obtain q where q: "nextPage_of r = Has q" by blast
      from always [of c "\<lparr>path = ''products.json'', query = NextQuery q\<rparr>"] obtain r1 c1 q1
        where g1: "get c \<lparr>path = ''products.json'', query = NextQuery q\<rparr> = (Inr r1, c1)"
          and n1: "nextPage_of r1 = Has q1" by blast
      from eq a q g1 have "loop g c1 r1 (acc @ body_products r1) = Some y" by simp
      from IH [OF this] a n1 show False by blast
    qed
  qed
  from this [OF y] assms(2) show False by blast
qed

lemma fetchAllProducts_never_returns:
  assumes always: "\<And>c req. \<exists>r c' q. get c req = (Inr r, c') \<and> nextPage_of r = Has q"
  shows "fetchAllProducts get c = None"
proof -
  from always [of c first_params] obtain r c' q
    where "get c first_params = (Inr r, c')" "nextPage_of r = Has q" by blast
  with fetch_loop_never_returns [of get r q c' "[] @ body_products r", OF always]
  show ?thesis by (simp add: fetchAllProducts_def)
qed

lemma endless_get_always:
  "\<exists>r c' q. endless_get c req = (Inr r, c') \<and> nextPage_of r = Has q"
  by (simp add: endless_get_def nextPage_of_def)

text \<open>
  C9 (amended). The pagination loop stops exactly when a response has no
  continuation token; it has no iteration cap. Against a client that returns a
  continuation token with every answer, \<open>fetchAllProducts\<close> never returns, so
  no error is reported either, and \<open>GET\<close> produces no response.
\<close>

theorem fetchAllProducts_unbounded:
  assumes "\<forall>c req. \<exists>r c' q. get c req = (Inr r, c') \<and> nextPage_of r = Has q"
  shows "fetchAllProducts get c = None
       \<and> (truthy host \<and> truthy token \<longrightarrow> GET rt host token get c = None)
       \<and> (nextPage_of r = Missing \<or> nextPage_of r = IsNull
            \<longrightarrow> fetch_loop get s r acc = Some (Inr acc, s))"
proof -
  from assms have always: "\<And>c req. \<exists>r c' q. get c req = (Inr r, c') \<and> nextPage_of r = Has q"
    by blast
  have n: "fetchAllProducts get c = None"
    by (rule fetchAllProducts_never_returns [OF always])
  have g: "truthy host \<and> truthy token \<longrightarrow> GET rt host token get c = None"
    by (simp add: GET_def n)
  have s: "nextPage_of r = Missing \<or> nextPage_of r = IsNull
            \<longrightarrow> fetch_loop get s r acc = Some (Inr acc, s)"
    using fetch_loop_stop [of r get s acc] by blast
  show ?thesis by (intro conjI n g s)
qed

theorem fetchAllProducts_unbounded_witness:
  "(\<forall>c req. \<exists>r c' q. endless_get c req = (Inr r, c') \<and> nextPage_of r = Has q)
   \<and> GET decimal_engine (JStr ''shop.example'') (JStr ''token'') endless_get 0 = None"
proof -
  have a: "\<forall>c req. \<exists>r c' q. endless_get c req = (Inr r, c') \<and> nextPage_of r = Has q"
    using endless_get_always by blast
  from fetchAllProducts_unbounded [OF a, of 0 "JStr ''shop.example''" "JStr ''token''" decimal_engine]
  have "GET decimal_engine (JStr ''shop.example'') (JStr ''token'') endless_get 0 = None"
    by simp
  with a show ?thesis by blast
qed

text \<open>The fetcher does not terminate on the endless client: there is no result,
  hence no source error.\<close>

theorem fetchAllProducts_no_cap_counterexample:
  "fetchAllProducts endless_get 0 = None"
  by (rule fetchAllProducts_never_returns) (rule endless_get_always)

section \<open>Reading a row back\<close>

lemma parse_field_end:
  assumes "field_end rest" "st \<noteq> InQuoted"
  shows "parse_csv st rest = parse_csv FieldStart rest"
  using assms by (cases rest; cases st) auto

lemma foldr_push_fields: "foldr push t (Some (f # fs)) = Some ((t @ f) # fs)"
  by (induction t) simp_all

lemma parse_quoted:
  "parse_csv InQuoted (double_quotes t @ CHR 0x22 # rest) = foldr push t (parse_csv AfterQuote rest)"
  by (induction t) simp_all

lemma parse_plain:
  assumes "CHR '','' \<notin> set t"
  shows "parse_csv InPlain (t @ rest) = foldr push t (parse_csv InPlain rest)"
  using assms by (induction t) auto

lemma parse_start_plain:
  assumes "CHR '','' \<notin> set t" "CHR 0x22 \<notin> set t" "field_end rest"
  shows "parse_csv FieldStart (t @ rest) = foldr push t (parse_csv FieldStart rest)"
proof (cases t)
  case Nil
  then show ?thesis by simp
next
  case (Cons c cs)
  with assms have "parse_csv FieldStart (t @ rest) = push c (parse_csv InPlain (cs @ rest))"
    by auto
  also have "\<dots> = push c (foldr push cs (parse_csv InPlain rest))"
    using assms Cons by (simp add: parse_plain)
  also have "\<dots> = foldr push t (parse_csv FieldStart rest)"
    using parse_field_end [OF assms(3), of InPlain] Cons by simp
  finally show ?thesis .
qed

lemma parse_escaped_field:
  assumes "field_end rest"
  shows "parse_csv FieldStart (escapeCsv rt v @ rest)
           = foldr push (field_text rt v) (parse_csv FieldStart rest)"
proof (cases "truthy v")
  case False
  then show ?thesis by (simp add: escapeCsv_def field_text_def)
next
  case True
  show ?thesis
  proof (cases "CHR 0x22 \<in> set (ToString rt v) \<or> CHR '','' \<in> set (ToString rt v)
                \<or> CHR 0x0A \<in> set (ToString rt v)")
    case True
    with \<open>truthy v\<close> have "escapeCsv rt v = CHR 0x22 # double_quotes (ToString rt v) @ [CHR 0x22]"
      by (simp add: escapeCsv_def Let_def)
    then have "parse_csv FieldStart (escapeCsv rt v @ rest)
                 = parse_csv InQuoted (double_quotes (ToString rt v) @ CHR 0x22 # rest)"
      by simp
    also have "\<dots> = foldr push (ToString rt v) (parse_csv AfterQuote rest)"
      by (rule parse_quoted)
    also have "\<dots> = foldr push (ToString rt v) (parse_csv FieldStart rest)"
      using parse_field_end [OF assms, of AfterQuote] by simp
    finally show ?thesis using \<open>truthy v\<close> by (simp add: field_text_def)
  next
    case False
    with \<open>truthy v\<close> have "escapeCsv rt v = ToString rt v"
      by (simp add: escapeCsv_def Let_def)
    with False parse_start_plain [of "ToString rt v" rest] assms \<open>truthy v\<close>
    show ?thesis by (simp add: field_text_def)
  qed
qed

lemma parse_joined:
  assumes "cells \<noteq> []"
  shows "parse_csv FieldStart (join '','' (map (escapeCsv rt) cells)) = Some (map (field_text rt) cells)"
  using assms
proof (induction cells)
  case Nil
  then show ?case by simp
next
  case (Cons v vs)
  show ?case
  proof (cases "vs = []")
    case True
    with parse_escaped_field [of "[]" rt v] show ?thesis
      by (simp add: foldr_push_fields)
  next
    case False
    with Cons.IH have IH: "parse_csv FieldStart (join '','' (map (escapeCsv rt) vs))
                             = Some (map (field_text rt) vs)" by simp
    from False have "join '','' (map (escapeCsv rt) (v # vs))
                       = escapeCsv rt v @ CHR '','' # join '','' (map (escapeCsv rt) vs)"
      by (simp add: join_Cons)
    with parse_escaped_field [of "CHR '','' # join '','' (map (escapeCsv rt) vs)" rt v] IH
    show ?thesis by (simp add: foldr_push_fields)
  qed
qed


lemma field_text_JStr: "map (field_text rt) (map JStr ss) = ss"
  by (induction ss) (simp_all add: field_text_def)

text \<open>
  C10. For every non-empty list of field values, so for every list of 19, reading
  the line that escaping and comma-joining produce gives back the fields
  one for one, each as its text and a falsy one as the empty string; for string
  fields these are the strings themselves. Hence two lists of fields with the
  same line have the same texts: no field boundary is lost. This holds for the
  line of every row that \<open>buildItemRow\<close> returns.
\<close>

theorem csv_round_trip:
  assumes "cells \<noteq> []"
  shows "parse_line (join '','' (map (escapeCsv rt) cells)) = Some (map (field_text rt) cells)
       \<and> (\<forall>ss. cells = map JStr ss \<longrightarrow>
             parse_line (join '','' (map (escapeCsv rt) cells)) = Some ss)
       \<and> (\<forall>others. others \<noteq> []
             \<and> join '','' (map (escapeCsv rt) others) = join '','' (map (escapeCsv rt) cells)
             \<longrightarrow> map (field_text rt) others = map (field_text rt) cells)
       \<and> (\<forall>p v line. buildItemRow_row rt p v = Inr cells \<and> buildItemRow rt p v = Inr line
             \<longrightarrow> parse_line line = Some (map (field_text rt) cells) \<and> length cells = 19)"
proof -
  have a: "parse_line (join '','' (map (escapeCsv rt) cells)) = Some (map (field_text rt) cells)"
    unfolding parse_line_def by (rule parse_joined [OF assms])
  have b: "\<forall>ss. cells = map JStr ss \<longrightarrow>
             parse_line (join '','' (map (escapeCsv rt) cells)) = Some ss"
  proof (intro allI impI)
    fix ss
    assume "cells = map JStr ss"
    with a field_text_JStr [of rt ss]
    show "parse_line (join '','' (map (escapeCsv rt) cells)) = Some ss"
      by (simp only:)
  qed
  have c: "\<forall>others. others \<noteq> []
             \<and> join '','' (map (escapeCsv rt) others) = join '','' (map (escapeCsv rt) cells)
             \<longrightarrow> map (field_text rt) others = map (field_text rt) cells"
  proof (intro allI impI)
    fix others :: "jsval list"
    assume o: "others \<noteq> []
             \<and> join '','' (map (escapeCsv rt) others) = join '','' (map (escapeCsv rt) cells)"
    then have ne: "others \<noteq> []" by (rule conjunct1)
    have "parse_csv FieldStart (join '','' (map (escapeCsv rt) others))
                 = Some (map (field_text rt) others)"
      by (rule parse_joined [OF ne])
    with o a show "map (field_text rt) others = map (field_text rt) cells"
      by (simp add: parse_line_def)
  qed
  have d: "\<forall>p v line. buildItemRow_row rt p v = Inr cells \<and> buildItemRow rt p v = Inr line
             \<longrightarrow> parse_line line = Some (map (field_text rt) cells) \<and> length cells = 19"
  proof (intro allI impI)
    fix p v line
    assume h: "buildItemRow_row rt p v = Inr cells \<and> buildItemRow rt p v = Inr line"
    then have "line = join '','' (map (escapeCsv rt) cells)"
      by (auto simp: buildItemRow_def)
    moreover from h have "length cells = 19"
      by (auto simp: buildItemRow_row_def Let_def split: sum.splits)
    ultimately show "parse_line line = Some (map (field_text rt) cells) \<and> length cells = 19"
      using a by simp
  qed
  show ?thesis by (intro conjI a b c d)
qed

theorem csv_round_trip_witness:
  "tricky_cells \<noteq> [] \<and> length tricky_cells = 19
   \<and> parse_line (join '','' (map (escapeCsv decimal_engine) tricky_cells))
       = Some [''sku-1'', ''Lotion, large'', ''6'' @ [CHR 0x22] @ '' tube'',
               ''two'' @ [CHR 0x0A] @ ''lines'',
               [], [CHR 0x22], '','', [CHR 0x22, CHR 0x22], [CHR 0x22] @ '','' @ [CHR 0x22],
               ''a.png,b.png'', ''new'', [], ''false'', [], ''42'', ''Red'', [], [], ''0.5 kg'']"
proof -
  have n: "tricky_cells \<noteq> []" "length tricky_cells = 19"
    by (simp_all add: tricky_cells_def)
  from csv_round_trip [OF n(1), of decimal_engine, THEN conjunct2, THEN conjunct1,
      rule_format, OF tricky_cells_def]
  show ?thesis using n by simp
qed

end
